theory Spec2Isabelle
  imports Main "HOL-Library.Word" "HOL-Library.AList"
begin

section \<open>JavaScript strings\<close>

text \<open>
  A JavaScript string is a sequence of 16-bit code units. The regular expressions of
  \<^verbatim>\<open>processData\<close> carry no \<^verbatim>\<open>u\<close> flag, so they work on code units too.
  \<open>js\<close> writes an ASCII literal of the source as such a sequence.
\<close>

type_synonym jsstring = "16 word list"

definition js :: "string \<Rightarrow> jsstring" where
  "js s = map of_char s"

text \<open>
  The class \<^verbatim>\<open>\s\<close> of a JavaScript regular expression, which is also the set of
  code units that \<^verbatim>\<open>String.prototype.trim\<close> removes: tab, line feed, vertical tab,
  form feed, carriage return, space, no-break space, U+1680, U+2000 to U+200A, U+2028,
  U+2029, U+202F, U+205F, U+3000 and U+FEFF.
\<close>

definition is_space :: "16 word \<Rightarrow> bool" where
  "is_space c =
     (c \<in> {0x9, 0xA, 0xB, 0xC, 0xD, 0x20, 0xA0, 0x1680, 0x2028, 0x2029, 0x202F, 0x205F,
            0x3000, 0xFEFF}
      \<or> (0x2000 \<le> c \<and> c \<le> 0x200A))"

text \<open>The class \<^verbatim>\<open>\w\<close>: ASCII digits, letters and the underscore.\<close>

definition is_word :: "16 word \<Rightarrow> bool" where
  "is_word c =
     ((0x30 \<le> c \<and> c \<le> 0x39) \<or> (0x41 \<le> c \<and> c \<le> 0x5A) \<or> (0x61 \<le> c \<and> c \<le> 0x7A)
      \<or> c = 0x5F)"

text \<open>The group \<^verbatim>\<open>([^\w\s]|_)\<close>: one code unit that is neither word nor space, or
  an underscore.\<close>

definition is_punct :: "16 word \<Rightarrow> bool" where
  "is_punct c = ((\<not> is_word c \<and> \<not> is_space c) \<or> c = 0x5F)"

definition startsWith :: "jsstring \<Rightarrow> jsstring \<Rightarrow> bool" where
  "startsWith s p = (take (length p) s = p)"

definition endsWith :: "jsstring \<Rightarrow> jsstring \<Rightarrow> bool" where
  "endsWith s p = (length p \<le> length s \<and> drop (length s - length p) s = p)"

fun js_includes :: "jsstring \<Rightarrow> jsstring \<Rightarrow> bool" where
  "js_includes [] p = (p = [])"
| "js_includes (c # cs) p = (startsWith (c # cs) p \<or> js_includes cs p)"

text \<open>\<^verbatim>\<open>s.indexOf(p)\<close>: the first position where \<open>p\<close> occurs, \<open>-1\<close> when it does
  not occur. The first argument counts the code units already passed.\<close>

fun indexOf_from :: "nat \<Rightarrow> jsstring \<Rightarrow> jsstring \<Rightarrow> int" where
  "indexOf_from i [] p = (if p = [] then int i else - 1)"
| "indexOf_from i (c # cs) p =
     (if startsWith (c # cs) p then int i else indexOf_from (Suc i) cs p)"

definition indexOf :: "jsstring \<Rightarrow> jsstring \<Rightarrow> int" where
  "indexOf s p = indexOf_from 0 s p"

text \<open>\<^verbatim>\<open>s.substring(a, b)\<close>: both indices are clamped to \<open>0..length s\<close> and
  swapped when the first is the larger one.\<close>

definition substring :: "jsstring \<Rightarrow> int \<Rightarrow> int \<Rightarrow> jsstring" where
  "substring s a b =
     (let n = int (length s);
          a' = max 0 (min a n);
          b' = max 0 (min b n);
          lo = min a' b';
          hi = max a' b'
      in take (nat (hi - lo)) (drop (nat lo) s))"

text \<open>\<^verbatim>\<open>s.split('\n')\<close>: the pieces between line feeds; never the empty list.\<close>

fun split_nl :: "jsstring \<Rightarrow> jsstring list" where
  "split_nl [] = [[]]"
| "split_nl (c # cs) =
     (if c = 0xA then [] # split_nl cs
      else (case split_nl cs of [] \<Rightarrow> [[c]] | l # ls \<Rightarrow> (c # l) # ls))"

text \<open>A natural number in a template literal: its decimal digits.\<close>

fun decimal :: "nat \<Rightarrow> jsstring" where
  "decimal n =
     (if n < 10 then [of_nat (48 + n)] else decimal (n div 10) @ [of_nat (48 + n mod 10)])"

declare decimal.simps [simp del]

definition trim :: "jsstring \<Rightarrow> jsstring" where
  "trim s = rev (dropWhile is_space (rev (dropWhile is_space s)))"

section \<open>The text normalizer: processData\<close>

text \<open>
  \<^verbatim>\<open>text.replace(/http\S+/g, '')\<close>. \<open>url_at s\<close> says that the expression matches at
  the start of \<open>s\<close>: the four code units of \<^verbatim>\<open>http\<close> and at least one that is not
  a space. The match is greedy, it takes every following code unit up to the next space,
  and the scan goes on behind it.
\<close>

definition url_at :: "jsstring \<Rightarrow> bool" where
  "url_at s =
     (take 4 s = js ''http'' \<and> (case drop 4 s of [] \<Rightarrow> False | d # _ \<Rightarrow> \<not> is_space d))"

function strip_urls :: "jsstring \<Rightarrow> jsstring" where
  "strip_urls [] = []"
| "strip_urls (c # cs) =
     (if url_at (c # cs)
      then strip_urls (dropWhile (\<lambda>d. \<not> is_space d) (drop 4 (c # cs)))
      else c # strip_urls cs)"
  by pat_completeness auto
termination
  by (relation "measure length")
     (auto intro: le_less_trans [OF length_dropWhile_le])

text \<open>\<^verbatim>\<open>replace(/\s+/g, ' ')\<close>: every maximal run of spaces becomes one U+0020.\<close>

function collapse_ws :: "jsstring \<Rightarrow> jsstring" where
  "collapse_ws [] = []"
| "collapse_ws (c # cs) =
     (if is_space c
      then 0x20 # collapse_ws (dropWhile is_space cs)
      else c # collapse_ws cs)"
  by pat_completeness auto
termination
  by (relation "measure length")
     (auto intro: le_imp_less_Suc [OF length_dropWhile_le])

text \<open>
  \<^verbatim>\<open>replace(/([^\w\s]|_)\1+/g, '')\<close>. \<open>run_at s\<close> says that the expression matches at
  the start of \<open>s\<close>: a code unit of the group followed by at least one copy of itself.
  The whole run of copies is deleted.
\<close>

definition run_at :: "jsstring \<Rightarrow> bool" where
  "run_at s = (case s of c # d # _ \<Rightarrow> is_punct c \<and> d = c | _ \<Rightarrow> False)"

function strip_runs :: "jsstring \<Rightarrow> jsstring" where
  "strip_runs [] = []"
| "strip_runs (c # cs) =
     (if run_at (c # cs)
      then strip_runs (dropWhile (\<lambda>d. d = c) cs)
      else c # strip_runs cs)"
  by pat_completeness auto
termination
  by (relation "measure length")
     (auto intro: le_imp_less_Suc [OF length_dropWhile_le])

definition processData :: "jsstring \<Rightarrow> jsstring" where
  "processData text =
     (let processedText = strip_urls text;
          processedText = collapse_ws processedText;
          processedText = strip_runs processedText;
          processedText = trim processedText
      in processedText)"

text \<open>Shapes of text on which one of the three replacements finds nothing to do.\<close>

fun no_url :: "jsstring \<Rightarrow> bool" where
  "no_url [] = True"
| "no_url (c # cs) = (\<not> url_at (c # cs) \<and> no_url cs)"

fun ws_ok :: "jsstring \<Rightarrow> bool" where
  "ws_ok [] = True"
| "ws_ok (c # cs) =
     ((if is_space c then c = 0x20 \<and> (case cs of [] \<Rightarrow> True | d # _ \<Rightarrow> \<not> is_space d)
       else True)
      \<and> ws_ok cs)"

fun no_run :: "jsstring \<Rightarrow> bool" where
  "no_run [] = True"
| "no_run (c # cs) = (\<not> run_at (c # cs) \<and> no_run cs)"

section \<open>The two variants, the platform and the state\<close>

text \<open>
  The repository holds two variants of the program: \<^verbatim>\<open>src/app.js\<close> and
  \<^verbatim>\<open>src/unnamed/part_000\<close>. Most functions are the same in both; where they differ the
  model takes the variant as its first argument.
\<close>

datatype variant = App_js | Part_000

text \<open>
  Errors are values. Each constructor stands for one exception or rejection of the source:
  \<^item> \<open>Http_status code reason\<close>:
    \<^verbatim>\<open>new Error(`Error fetching web page: ${statusCode} ${statusMessage}`)\<close>;
  \<^item> \<open>Transport_failure m\<close>: \<^verbatim>\<open>new Error(`Error fetching web page: ${error.message}`)\<close>;
  \<^item> \<open>Request_failure m\<close>: a rejection of \<^verbatim>\<open>request.get\<close> (request-promise, app.js);
  \<^item> \<open>Invalid_URL u\<close>: the \<^verbatim>\<open>TypeError\<close> of \<^verbatim>\<open>new URL(u)\<close>
    (\<^verbatim>\<open>ERR_INVALID_URL\<close>);
  \<^item> \<open>Invalid_protocol protocol\<close>: the \<^verbatim>\<open>TypeError\<close> of a request whose protocol is
    not the one of its agent (\<^verbatim>\<open>ERR_INVALID_PROTOCOL\<close>);
  \<^item> \<open>Not_a_function\<close>: the \<^verbatim>\<open>TypeError\<close> of calling \<^verbatim>\<open>.then\<close> on a value
    that has no such method;
  \<^item> \<open>URI_malformed\<close>: the \<^verbatim>\<open>URIError\<close> of \<^verbatim>\<open>encodeURIComponent\<close> and
    \<^verbatim>\<open>decodeURIComponent\<close>;
  \<^item> \<open>Headers_sent\<close>: \<^verbatim>\<open>ERR_HTTP_HEADERS_SENT\<close>, a second response on one request;
  \<^item> \<open>Fs_failure path\<close>: an exception of the \<^verbatim>\<open>fs\<close> module at that path.
\<close>

datatype js_error =
    Http_status nat jsstring
  | Transport_failure jsstring
  | Request_failure jsstring
  | Invalid_URL jsstring
  | Invalid_protocol jsstring
  | Not_a_function
  | URI_malformed
  | Headers_sent
  | Fs_failure jsstring

text \<open>
  What one call of \<^verbatim>\<open>https.get\<close> or \<^verbatim>\<open>http.get\<close> delivers: a complete response
  (status code, status message, the \<^verbatim>\<open>server\<close> header when there is one, the body), or
  an \<^verbatim>\<open>'error'\<close> event with its message.
\<close>

datatype transport =
    Response nat jsstring "jsstring option" jsstring
  | Error_event jsstring

text \<open>
  The network is a parameter. Its answers may change over time: the first argument is the
  number of requests this process has issued before.
\<close>

record network =
  https_get :: "nat \<Rightarrow> jsstring \<Rightarrow> transport"
  http_get :: "nat \<Rightarrow> jsstring \<Rightarrow> transport"
  request_get :: "nat \<Rightarrow> jsstring \<Rightarrow> js_error + jsstring"

text \<open>
  The values that reach the page-handling code as \<^verbatim>\<open>htmlContent\<close>: a string, or
  \<open>Member name\<close>, the value of \<^verbatim>\<open>cache[name]\<close> for a name that the object
  \<^verbatim>\<open>cache\<close> inherits from \<^verbatim>\<open>Object.prototype\<close> (a function or, for
  \<^verbatim>\<open>__proto__\<close>, an object; none of them has a method \<^verbatim>\<open>then\<close>).
\<close>

datatype js_value =
    Str jsstring
  | Member jsstring

text \<open>The protocol and the host name of a parsed URL.\<close>

record url_parts =
  protocol :: jsstring
  hostname :: jsstring

text \<open>
  Library functions the program calls are parameters too:
  \<^item> \<open>title_text content\<close>: cheerio's \<^verbatim>\<open>$('title').text()\<close> after
    \<^verbatim>\<open>cheerio.load(content)\<close>;
  \<^item> \<open>body_text_without tags content\<close>: cheerio's \<^verbatim>\<open>$('body').text()\<close> after
    \<^verbatim>\<open>$(tag).remove()\<close> for each tag;
  \<^item> \<open>whatwg_url u\<close>: what the URL parser makes of a string that has a colon, \<open>None\<close>
    when it refuses it (see \<open>new_URL\<close>);
  \<^item> \<open>JSON_stringify\<close>: \<^verbatim>\<open>JSON.stringify\<close> of an object given by its properties in order;
  \<^item> \<open>anchor_hrefs content\<close>: jsdom's \<^verbatim>\<open>link.href\<close> for every \<^verbatim>\<open>a[href]\<close> of
    \<^verbatim>\<open>new JSDOM(content)\<close>, in document order;
  \<^item> \<open>zip_archive entries\<close>: archiver's zip of a directory.
\<close>

record platform =
  title_text :: "js_value \<Rightarrow> jsstring"
  body_text_without :: "jsstring list \<Rightarrow> js_value \<Rightarrow> jsstring"
  whatwg_url :: "jsstring \<Rightarrow> url_parts option"
  JSON_stringify :: "(jsstring \<times> jsstring) list \<Rightarrow> jsstring"
  encodeURIComponent :: "jsstring \<Rightarrow> jsstring option"
  decodeURIComponent :: "jsstring \<Rightarrow> jsstring option"
  anchor_hrefs :: "js_value \<Rightarrow> jsstring list"
  zip_archive :: "(jsstring \<times> jsstring) list \<Rightarrow> jsstring"

text \<open>
  \<^verbatim>\<open>new URL(u)\<close>, with no base: \<open>None\<close> when the constructor throws. A URL without a
  base needs a scheme, so a string without a colon is refused whatever else it holds.
\<close>

definition new_URL :: "platform \<Rightarrow> jsstring \<Rightarrow> url_parts option" where
  "new_URL p u = (if 0x3A \<in> set u then whatwg_url p u else None)"

text \<open>\<^verbatim>\<open>new URL(u).hostname\<close>, \<open>None\<close> when the constructor throws.\<close>

definition url_hostname :: "platform \<Rightarrow> jsstring \<Rightarrow> jsstring option" where
  "url_hostname p u = map_option hostname (new_URL p u)"

text \<open>Lines that \<^verbatim>\<open>logEvent\<close> appends to the log file, by their template.\<close>

datatype event =
    Error_processing_URL jsstring js_error
  | Error_fetching_web_page js_error
  | Error_fetching_or_processing_URL jsstring js_error
  | Error_in_bulk_route js_error
  | Error_stack js_error

text \<open>
  The state of the process and of its working directory:
  \<^item> \<open>cache\<close>: the own properties of the object \<^verbatim>\<open>cache\<close>, each a URL with the
    page stored for it (what the object inherits is \<open>Object_prototype_names\<close>);
  \<^item> \<open>dirs\<close>: the directories of the working directory, each with its entries
    (file name and content); the program is started in its own directory, so
    \<^verbatim>\<open>${__dirname}/${folderName}\<close> and the relative path \<^verbatim>\<open>folderName\<close> name the same
    directory;
  \<^item> \<open>files\<close>: the regular files of the working directory (the archives);
  \<^item> \<open>timers\<close>: the pending \<^verbatim>\<open>setTimeout\<close> callbacks that delete a directory, with
    their delay in milliseconds;
  \<^item> \<open>log\<close>: the log file;
  \<^item> \<open>requests\<close>: the number of network requests issued so far.
\<close>

record world =
  cache :: "jsstring \<rightharpoonup> jsstring"
  dirs :: "jsstring \<rightharpoonup> (jsstring \<times> jsstring) list"
  files :: "jsstring \<rightharpoonup> jsstring"
  timers :: "(nat \<times> jsstring) list"
  log :: "event list"
  requests :: nat

definition logEvent :: "event \<Rightarrow> world \<Rightarrow> world" where
  "logEvent e w = w\<lparr>log := log w @ [e]\<rparr>"

text \<open>
  \<^verbatim>\<open>cache\<close> is a plain object (\<^verbatim>\<open>let cache = {}\<close>), so it inherits the properties
  of \<^verbatim>\<open>Object.prototype\<close>. These are their names.
\<close>

definition Object_prototype_names :: "jsstring list" where
  "Object_prototype_names =
     map js [''constructor'', ''__defineGetter__'', ''__defineSetter__'', ''hasOwnProperty'',
             ''__lookupGetter__'', ''__lookupSetter__'', ''isPrototypeOf'',
             ''propertyIsEnumerable'', ''toString'', ''valueOf'', ''__proto__'',
             ''toLocaleString'']"

text \<open>\<^verbatim>\<open>url in cache\<close>: the name is an own property or an inherited one.\<close>

definition in_cache :: "world \<Rightarrow> jsstring \<Rightarrow> bool" where
  "in_cache w url = (\<not> (cache w url = None \<and> url \<notin> set Object_prototype_names))"

text \<open>\<^verbatim>\<open>cache[url]\<close> for a name that is in the cache: an own property comes first.\<close>

definition cache_get :: "world \<Rightarrow> jsstring \<Rightarrow> js_value" where
  "cache_get w url = (case cache w url of Some cached \<Rightarrow> Str cached | None \<Rightarrow> Member url)"

subsection \<open>The file system\<close>

text \<open>
  A path is a key of \<open>dirs\<close> or \<open>files\<close>. The operations throw where the structure
  of the tree makes them throw (a regular file where a directory is needed, a missing
  parent directory); the limits of the operating system (the length of a name,
  permissions, free space) are not represented.
\<close>

definition existsSync :: "world \<Rightarrow> jsstring \<Rightarrow> bool" where
  "existsSync w path = (\<not> (dirs w path = None \<and> files w path = None))"

definition isDirectory :: "world \<Rightarrow> jsstring \<Rightarrow> bool" where
  "isDirectory w path = (\<not> dirs w path = None)"

text \<open>\<^verbatim>\<open>fs.mkdirSync(path, { recursive: true })\<close>: nothing to do when the directory
  exists, an exception when the path is a regular file.\<close>

definition mkdirSync :: "world \<Rightarrow> jsstring \<Rightarrow> js_error option \<times> world" where
  "mkdirSync w path =
     (case files w path of
        Some _ \<Rightarrow> (Some (Fs_failure path), w)
      | None \<Rightarrow>
          (case dirs w path of
             Some _ \<Rightarrow> (None, w)
           | None \<Rightarrow> (None, w\<lparr>dirs := (dirs w)(path \<mapsto> [])\<rparr>)))"

text \<open>
  \<^verbatim>\<open>fs.writeFileSync(`${folderPath}/${name}`, data)\<close>: creates or overwrites the entry.
  It throws when \<open>folderPath\<close> is not a directory, and when \<open>name\<close> does not name a file
  directly inside it (\<^verbatim>\<open>.\<close>, \<^verbatim>\<open>..\<close>, or a name with a slash: no directory is ever
  created inside a session directory).
\<close>

definition entry_name :: "jsstring \<Rightarrow> bool" where
  "entry_name name = (\<not> (name = js ''.'' \<or> name = js ''..'' \<or> 0x2F \<in> set name))"

definition writeFileSync :: "world \<Rightarrow> jsstring \<Rightarrow> jsstring \<Rightarrow> jsstring \<Rightarrow> js_error option \<times> world" where
  "writeFileSync w folderPath name data =
     (case dirs w folderPath of
        None \<Rightarrow> (Some (Fs_failure (folderPath @ js ''/'' @ name)), w)
      | Some entries \<Rightarrow>
          (if entry_name name
           then (None, w\<lparr>dirs := (dirs w)(folderPath \<mapsto> AList.update name data entries)\<rparr>)
           else (Some (Fs_failure (folderPath @ js ''/'' @ name)), w)))"

text \<open>\<^verbatim>\<open>fs.readdirSync(path)\<close>: the names of the entries; \<open>None\<close> when it throws.\<close>

definition readdirSync :: "world \<Rightarrow> jsstring \<Rightarrow> jsstring list option" where
  "readdirSync w path = map_option (map fst) (dirs w path)"

text \<open>The content of a file of a directory, \<open>None\<close> when there is no such file.\<close>

definition readFileSync :: "world \<Rightarrow> jsstring \<Rightarrow> jsstring \<Rightarrow> jsstring option" where
  "readFileSync w folderPath name =
     (case dirs w folderPath of None \<Rightarrow> None | Some entries \<Rightarrow> map_of entries name)"

text \<open>
  \<^verbatim>\<open>deleteFolder\<close> of part_000, and the body of the timer callback of
  \<^verbatim>\<open>saveData\<close>: remove the path recursively when it exists.
\<close>

definition deleteFolder :: "world \<Rightarrow> jsstring \<Rightarrow> world" where
  "deleteFolder w folderPath =
     (if existsSync w folderPath
      then w\<lparr>dirs := (dirs w)(folderPath := None), files := (files w)(folderPath := None)\<rparr>
      else w)"

text \<open>All pending timers fire, in the order in which they were set.\<close>

definition fire_timers :: "world \<Rightarrow> world" where
  "fire_timers w = fold (\<lambda>t u. deleteFolder u (snd t)) (timers w) (w\<lparr>timers := []\<rparr>)"

section \<open>fetchWebPage\<close>

text \<open>
  What a call of \<^verbatim>\<open>fetchWebPage\<close> gives back: when the URL is in the cache the value
  \<^verbatim>\<open>cache[url]\<close> itself (\<open>Returned\<close>), otherwise a promise, modelled by how it
  settles (\<open>Inr\<close> the string it resolves with, \<open>Inl\<close> the error it rejects with).
\<close>

datatype fetched =
    Returned js_value
  | Promise "js_error + jsstring"

text \<open>\<^verbatim>\<open>await x\<close>: a value that is not a promise is its own result.\<close>

fun await :: "fetched \<Rightarrow> js_error + js_value" where
  "await (Returned value) = Inr value"
| "await (Promise (Inl error)) = Inl error"
| "await (Promise (Inr s)) = Inr (Str s)"

text \<open>The response callback of part_000, the same three times in the source.\<close>

fun on_response :: "world \<Rightarrow> jsstring \<Rightarrow> transport \<Rightarrow> (js_error + jsstring) \<times> world" where
  "on_response w url (Response statusCode statusMessage server responseData) =
     (if statusCode = 200
      then (Inr responseData, w\<lparr>cache := (cache w)(url \<mapsto> responseData)\<rparr>)
      else if statusCode = 403 \<and> server = Some (js ''cloudflare'')
      then (Inr (js ''skip''), w)
      else (Inl (Http_status statusCode statusMessage), w))"
| "on_response w url (Error_event message) = (Inl (Transport_failure message), w)"

text \<open>
  part_000 passes \<^verbatim>\<open>agent: keepAliveAgent\<close>, an \<^verbatim>\<open>HttpsAgent\<close>, to every call of
  \<^verbatim>\<open>https.get\<close> and of \<^verbatim>\<open>http.get\<close>. Both parse the URL and compare its protocol
  with the one of the agent, \<^verbatim>\<open>https:\<close>, before any request is made: the exception
  with which \<^verbatim>\<open>get\<close> ends for a URL, if any.
\<close>

definition get_throws :: "platform \<Rightarrow> jsstring \<Rightarrow> js_error option" where
  "get_throws p url =
     (case new_URL p url of
        None \<Rightarrow> Some (Invalid_URL url)
      | Some parts \<Rightarrow>
          (if protocol parts = js ''https:'' then None else Some (Invalid_protocol (protocol parts))))"

text \<open>
  The transport part of part_000, inside the executor of the promise. A URL that starts
  with \<^verbatim>\<open>https://\<close> goes to \<^verbatim>\<open>https.get\<close>, and once more to \<^verbatim>\<open>http.get\<close> when
  that ends in an \<^verbatim>\<open>'error'\<close> event; any other URL goes to \<^verbatim>\<open>http.get\<close> only.
  When the first call throws, no request is made and the exception is the result
  (\<open>Inl\<close>); otherwise the result is what the last request delivered (\<open>Inr\<close>), with the
  requests counted.
\<close>

definition exchange :: "platform \<Rightarrow> network \<Rightarrow> world \<Rightarrow> jsstring \<Rightarrow> (js_error + transport) \<times> world" where
  "exchange p net w url =
     (case get_throws p url of
        Some error \<Rightarrow> (Inl error, w)
      | None \<Rightarrow>
          (if startsWith url (js ''https://'')
           then
             (case https_get net (requests w) url of
                Error_event error \<Rightarrow>
                  (Inr (http_get net (Suc (requests w)) url), w\<lparr>requests := Suc (Suc (requests w))\<rparr>)
              | response \<Rightarrow> (Inr response, w\<lparr>requests := Suc (requests w)\<rparr>))
           else (Inr (http_get net (requests w) url), w\<lparr>requests := Suc (requests w)\<rparr>)))"

text \<open>
  The promise of \<^verbatim>\<open>fetchWebPage\<close>. In app.js it is the promise of
  \<^verbatim>\<open>request.get\<close>, with the cache filled on success and the error logged and
  thrown again on failure. In part_000 an exception inside the executor rejects it, and
  otherwise the response callback settles it.
\<close>

definition fetch_promise ::
  "variant \<Rightarrow> platform \<Rightarrow> network \<Rightarrow> world \<Rightarrow> jsstring \<Rightarrow> (js_error + jsstring) \<times> world" where
  "fetch_promise v p net w url =
     (case v of
        App_js \<Rightarrow>
          (let w1 = w\<lparr>requests := Suc (requests w)\<rparr> in
           case request_get net (requests w) url of
             Inr response \<Rightarrow> (Inr response, w1\<lparr>cache := (cache w1)(url \<mapsto> response)\<rparr>)
           | Inl error \<Rightarrow> (Inl error, logEvent (Error_fetching_web_page error) w1))
      | Part_000 \<Rightarrow>
          (case exchange p net w url of
             (Inl error, w1) \<Rightarrow> (Inl error, w1)
           | (Inr answer, w1) \<Rightarrow> on_response w1 url answer))"

text \<open>\<^verbatim>\<open>if (url in cache) { return cache[url]; }\<close>, and the promise otherwise.\<close>

definition fetchWebPage ::
  "variant \<Rightarrow> platform \<Rightarrow> network \<Rightarrow> world \<Rightarrow> jsstring \<Rightarrow> fetched \<times> world" where
  "fetchWebPage v p net w url =
     (if in_cache w url then (Returned (cache_get w url), w)
      else (case fetch_promise v p net w url of (settled, w1) \<Rightarrow> (Promise settled, w1)))"

section \<open>scrapeData and saveData\<close>

definition excludedTags :: "variant \<Rightarrow> jsstring list" where
  "excludedTags v =
     map js [''a'', ''button'', ''link'', ''script'', ''form'', ''i'', ''input'', ''video'',
             ''image'', ''textarea'', ''img'', ''vid'', ''iframe'', ''footer'']
     @ (case v of App_js \<Rightarrow> [] | Part_000 \<Rightarrow> [js ''form''])"

definition scrapeData :: "variant \<Rightarrow> platform \<Rightarrow> js_value \<Rightarrow> jsstring \<times> jsstring" where
  "scrapeData v p htmlContent =
     (let title = title_text p htmlContent;
          bodyContent = body_text_without p (excludedTags v) htmlContent
      in (title, bodyContent))"

text \<open>The delay of the timer that \<^verbatim>\<open>saveData\<close> sets, in milliseconds.\<close>

definition save_delay :: "variant \<Rightarrow> nat" where
  "save_delay v = (case v of App_js \<Rightarrow> 3 * 60 * 1000 | Part_000 \<Rightarrow> 10 * 60 * 1000)"

text \<open>
  \<^verbatim>\<open>saveData\<close>. The result is the exception it throws, if any, and the state it
  leaves: a directory created before a failing write stays.
\<close>

definition saveData ::
  "variant \<Rightarrow> platform \<Rightarrow> world \<Rightarrow> jsstring \<Rightarrow> jsstring \<Rightarrow> jsstring \<Rightarrow> jsstring \<Rightarrow> jsstring
   \<Rightarrow> js_error option \<times> world" where
  "saveData v p w url title processedText folderName outputFormat =
     (case url_hostname p url of
        None \<Rightarrow> (Some (Invalid_URL url), w)
      | Some domain \<Rightarrow>
          (case (if existsSync w folderName then (None, w) else mkdirSync w folderName) of
             (Some error, w1) \<Rightarrow> (Some error, w1)
           | (None, w1) \<Rightarrow>
               (let data =
                      (if outputFormat = js ''json''
                       then JSON_stringify p [(js ''title'', title), (js ''content'', processedText)]
                       else processedText)
                in case writeFileSync w1 folderName (domain @ js ''.'' @ outputFormat) data of
                     (Some error, w2) \<Rightarrow> (Some error, w2)
                   | (None, w2) \<Rightarrow>
                       (None, w2\<lparr>cache := (cache w2)(url := None),
                                 timers := timers w2 @ [(save_delay v, folderName)]\<rparr>))))"

section \<open>processUrl: the pipeline of explicit-list mode\<close>

text \<open>
  The two callbacks that \<^verbatim>\<open>processUrl\<close> chains on the promise: \<^verbatim>\<open>.then\<close> scrapes,
  normalizes and saves, \<^verbatim>\<open>.catch\<close> logs the rejection of the fetch or the exception
  of the first callback.
\<close>

definition then_catch ::
  "variant \<Rightarrow> platform \<Rightarrow> world \<Rightarrow> js_error + jsstring \<Rightarrow> jsstring \<Rightarrow> jsstring \<Rightarrow> jsstring \<Rightarrow> world" where
  "then_catch v p w settled url outputFormat folderName =
     (case settled of
        Inl error \<Rightarrow> logEvent (Error_processing_URL url error) w
      | Inr htmlContent \<Rightarrow>
          (case scrapeData v p (Str htmlContent) of
             (title, bodyContent) \<Rightarrow>
               (case saveData v p w url title (processData bodyContent) folderName outputFormat of
                  (Some error, w1) \<Rightarrow> logEvent (Error_processing_URL url error) w1
                | (None, w1) \<Rightarrow> w1)))"

text \<open>
  One call of \<^verbatim>\<open>processUrl\<close>, with its promise run to completion. For a URL in the
  cache \<^verbatim>\<open>fetchWebPage\<close> returns \<^verbatim>\<open>cache[url]\<close>, a string or an inherited member;
  \<^verbatim>\<open>.then\<close> of either is \<^verbatim>\<open>undefined\<close>, so the call throws before any callback
  is chained.
\<close>

definition processUrl ::
  "variant \<Rightarrow> platform \<Rightarrow> network \<Rightarrow> world \<Rightarrow> jsstring \<Rightarrow> jsstring \<Rightarrow> jsstring
   \<Rightarrow> js_error option \<times> world" where
  "processUrl v p net w url outputFormat folderName =
     (case fetchWebPage v p net w url of
        (Returned cached, w1) \<Rightarrow> (Some Not_a_function, w1)
      | (Promise settled, w1) \<Rightarrow> (None, then_catch v p w1 settled url outputFormat folderName))"

section \<open>Explicit-list mode: POST /file\<close>

text \<open>Responses: \<^verbatim>\<open>res.status(n).send(text)\<close>, \<^verbatim>\<open>res.status(n).json(object)\<close> and
  \<^verbatim>\<open>res.status(n).download(path)\<close> with the content of the file sent.\<close>

datatype reply =
    Send nat jsstring
  | Json nat "(jsstring \<times> jsstring) list"
  | Download nat jsstring jsstring

record upload =
  originalname :: jsstring
  buffer :: jsstring

text \<open>
  The handler's own variables: \<open>urlCount\<close>, the URLs whose pipeline was started
  (\<open>scheduled\<close>, in order), and the response the client receives (\<open>sent\<close>): the first
  one sent on the request.
\<close>

record file_job =
  urlCount :: nat
  scheduled :: "jsstring list"
  sent :: "reply option"

text \<open>Sending a response: a second one on the same request throws.\<close>

definition respond :: "reply \<Rightarrow> file_job \<Rightarrow> js_error option \<times> file_job" where
  "respond r j =
     (case sent j of
        None \<Rightarrow> (None, j\<lparr>sent := Some r\<rparr>)
      | Some _ \<Rightarrow> (Some Headers_sent, j))"

text \<open>
  \<^verbatim>\<open>lines.forEach((url) => { ... })\<close>. The callback runs synchronously for each line,
  no promise settles in between, so the cache is the one the handler started with.
  \<^verbatim>\<open>return\<close> leaves the callback only, the next line is still visited; an exception
  leaves the whole loop. A call of \<^verbatim>\<open>processUrl\<close> throws exactly when the line is
  in the cache, as an own property or an inherited one (see \<open>processUrl\<close>); otherwise
  its pipeline is started.
\<close>

fun forEach_line :: "world \<Rightarrow> jsstring list \<Rightarrow> file_job \<Rightarrow> js_error option \<times> file_job" where
  "forEach_line w [] j = (None, j)"
| "forEach_line w (url # rest) j =
     (if trim url = [] then forEach_line w rest j
      else if 50 \<le> urlCount j then
        (case respond (Send 400 (js ''Only 50 URLs are allowed. Skipping remaining URLs.'')) j of
           (Some error, j1) \<Rightarrow> (Some error, j1)
         | (None, j1) \<Rightarrow> forEach_line w rest j1)
      else
        (if in_cache w url then (Some Not_a_function, j)
         else
           forEach_line w rest (j\<lparr>urlCount := Suc (urlCount j), scheduled := scheduled j @ [url]\<rparr>)))"

text \<open>\<^verbatim>\<open>uuidv4().replace(/-/g, '').slice(0, 10)\<close>, for the identifier the library
  generated.\<close>

definition job_id :: "jsstring \<Rightarrow> jsstring" where
  "job_id uuid = take 10 (filter (\<lambda>c. c \<noteq> 0x2D) uuid)"

definition file_notice :: "variant \<Rightarrow> jsstring \<Rightarrow> jsstring" where
  "file_notice v folderName =
     (case v of
        App_js \<Rightarrow>
          js ''Data folder '' @ folderName @ js '' will be deleted after 3 minutes starting from now''
      | Part_000 \<Rightarrow>
          js ''Data folder '' @ [0x22] @ folderName @ [0x22]
          @ js '' will be deleted after 10  minutes starting from now'')"

text \<open>The last error-handling middleware: it logs the exception and answers 500.\<close>

definition error_middleware :: "js_error \<Rightarrow> file_job \<times> world \<Rightarrow> file_job \<times> world" where
  "error_middleware error jw =
     (case jw of
        (j, w) \<Rightarrow>
          (snd (respond (Json 500 [(js ''error'', js ''Internal Server Error'')]) j),
           logEvent (Error_stack error) w))"

text \<open>
  The handler of \<^verbatim>\<open>POST /file\<close>, up to its return: which pipelines it has started and
  what the client receives. The pipelines themselves complete later (\<open>complete\<close>).
\<close>

definition post_file :: "variant \<Rightarrow> world \<Rightarrow> upload list \<Rightarrow> jsstring \<Rightarrow> jsstring \<Rightarrow> file_job \<times> world" where
  "post_file v w uploads outputFormat uuid =
     (let j0 = \<lparr>urlCount = 0, scheduled = [], sent = None\<rparr> in
      case uploads of
        [] \<Rightarrow> (j0\<lparr>sent := Some (Send 400 (js ''Invalid file format. Please upload a .txt file.''))\<rparr>, w)
      | file # _ \<Rightarrow>
          (if \<not> endsWith (originalname file) (js ''.txt'')
           then (j0\<lparr>sent := Some (Send 400 (js ''Invalid file format. Please upload a .txt file.''))\<rparr>, w)
           else
             (let lines = split_nl (buffer file);
                  folderName = job_id uuid
              in case forEach_line w lines j0 of
                   (Some error, j1) \<Rightarrow> error_middleware error (j1, w)
                 | (None, j1) \<Rightarrow>
                     (case respond
                             (Json 200
                               [(js ''status'', js ''success''),
                                (js ''message'', js ''Data scraped successfully.''),
                                (js ''download_url'', js ''/download/'' @ folderName),
                                (js ''Notice'', file_notice v folderName),
                                (js ''prosessed_urls'', decimal (urlCount j1))]) j1 of
                        (Some error, j2) \<Rightarrow> error_middleware error (j2, w)
                      | (None, j2) \<Rightarrow> (j2, w)))))"

text \<open>
  The started pipelines complete, here in the order in which they were started: each is
  the promise of its fetch followed by the two callbacks of \<^verbatim>\<open>processUrl\<close>.
\<close>

fun complete ::
  "variant \<Rightarrow> platform \<Rightarrow> network \<Rightarrow> jsstring \<Rightarrow> jsstring \<Rightarrow> jsstring list \<Rightarrow> world \<Rightarrow> world" where
  "complete v p net outputFormat folderName [] w = w"
| "complete v p net outputFormat folderName (url # rest) w =
     (case fetch_promise v p net w url of
        (settled, w1) \<Rightarrow>
          complete v p net outputFormat folderName rest
            (then_catch v p w1 settled url outputFormat folderName))"

section \<open>Discovery mode: POST /bulk\<close>

definition EXCLUDED_DOMAINS :: "variant \<Rightarrow> jsstring list" where
  "EXCLUDED_DOMAINS v =
     map js [''google'', ''youtube'', ''wikipedia'', ''cpanel'']
     @ (case v of App_js \<Rightarrow> [] | Part_000 \<Rightarrow> map js [''facebook'', ''twitter''])"

definition isValidURL :: "platform \<Rightarrow> jsstring \<Rightarrow> bool" where
  "isValidURL p url = (case new_URL p url of None \<Rightarrow> False | Some _ \<Rightarrow> True)"

text \<open>
  Whether the callback of \<^verbatim>\<open>links.forEach\<close> pushes a decoded URL. app.js asks for one
  of three keywords or the topic in the URL; part_000 drops URLs that end in
  \<^verbatim>\<open>.pdf\<close> instead.
\<close>

definition candidate :: "variant \<Rightarrow> platform \<Rightarrow> jsstring \<Rightarrow> jsstring \<Rightarrow> bool" where
  "candidate v p topic actualUrl =
     (isValidURL p actualUrl
      \<and> \<not> list_ex (\<lambda>domain. js_includes actualUrl domain) (EXCLUDED_DOMAINS v)
      \<and> (case v of
            App_js \<Rightarrow>
              js_includes actualUrl (js ''article'') \<or> js_includes actualUrl (js ''tutorial'')
              \<or> js_includes actualUrl (js ''guide'') \<or> js_includes actualUrl topic
          | Part_000 \<Rightarrow> \<not> endsWith actualUrl (js ''.pdf'')))"

text \<open>\<^verbatim>\<open>link.href.substring(link.href.indexOf('http'), link.href.indexOf('&sa='))\<close>.\<close>

definition wrapped_url :: "jsstring \<Rightarrow> jsstring" where
  "wrapped_url href = substring href (indexOf href (js ''http'')) (indexOf href (js ''&sa=''))"

text \<open>
  \<^verbatim>\<open>links.forEach\<close> over the links of one result page. \<^verbatim>\<open>decodeURIComponent\<close>
  may throw; the URLs pushed before stay in \<^verbatim>\<open>searchResults\<close>.
\<close>

fun add_links ::
  "variant \<Rightarrow> platform \<Rightarrow> jsstring \<Rightarrow> jsstring list \<Rightarrow> jsstring list \<Rightarrow> js_error option \<times> jsstring list" where
  "add_links v p topic [] searchResults = (None, searchResults)"
| "add_links v p topic (href # rest) searchResults =
     (case decodeURIComponent p (wrapped_url href) of
        None \<Rightarrow> (Some URI_malformed, searchResults)
      | Some actualUrl \<Rightarrow>
          add_links v p topic rest
            (if candidate v p topic actualUrl then searchResults @ [actualUrl] else searchResults))"

text \<open>
  The state of the first loop. \<open>page_log\<close> is not a variable of the program: it records,
  for each call of \<^verbatim>\<open>fetchWebPage\<close> on a search URL, that URL and the value of
  \<^verbatim>\<open>links\<close> for the page it gave, in order (no links when the fetch failed).
\<close>

record search_state =
  s_world :: world
  searchResults :: "jsstring list"
  page_log :: "(jsstring \<times> jsstring list) list"

text \<open>
  The links of the page that a fetch gave:
  \<^verbatim>\<open>new JSDOM(htmlContent).window.document.querySelectorAll('a[href]')\<close>, and none
  when the fetch failed.
\<close>

definition page_links :: "platform \<Rightarrow> fetched \<Rightarrow> jsstring list" where
  "page_links p r = (case await r of Inl error \<Rightarrow> [] | Inr htmlContent \<Rightarrow> anchor_hrefs p htmlContent)"

text \<open>The try block of one page, and its catch, which logs and goes on.\<close>

definition search_page ::
  "variant \<Rightarrow> platform \<Rightarrow> network \<Rightarrow> jsstring \<Rightarrow> jsstring \<Rightarrow> search_state \<Rightarrow> search_state" where
  "search_page v p net topic searchUrl st =
     (case fetchWebPage v p net (s_world st) searchUrl of
        (r, w1) \<Rightarrow>
          (case (case await r of
                   Inl error \<Rightarrow> (Some error, searchResults st)
                 | Inr htmlContent \<Rightarrow>
                     add_links v p topic (anchor_hrefs p htmlContent) (searchResults st)) of
             (thrown, results) \<Rightarrow>
               \<lparr>s_world =
                  (case thrown of
                     None \<Rightarrow> w1
                   | Some error \<Rightarrow> logEvent (Error_fetching_or_processing_URL searchUrl error) w1),
                searchResults = results,
                page_log = page_log st @ [(searchUrl, page_links p r)]\<rparr>))"

text \<open>\<^verbatim>\<open>n >= websitesNumber\<close>, where \<^verbatim>\<open>parseInt\<close> gave an integer or \<^verbatim>\<open>NaN\<close>
  (\<open>None\<close>); a comparison with \<^verbatim>\<open>NaN\<close> is false.\<close>

definition reached :: "nat \<Rightarrow> int option \<Rightarrow> bool" where
  "reached n websitesNumber = (case websitesNumber of None \<Rightarrow> False | Some k \<Rightarrow> k \<le> int n)"

text \<open>The search URL of a page, for the encoded topic.\<close>

definition search_url :: "jsstring \<Rightarrow> nat \<Rightarrow> jsstring" where
  "search_url q page = js ''https://www.google.com/search?q='' @ q @ js ''&start='' @ decimal (page * 10)"

text \<open>
  \<^verbatim>\<open>for (let page = 1; page <= 20; page++)\<close>. \<^verbatim>\<open>encodeURIComponent(topic)\<close> stands
  outside the try block of the page: its exception leaves the loop and the handler's own
  try block.
\<close>

function search_pages ::
  "variant \<Rightarrow> platform \<Rightarrow> network \<Rightarrow> jsstring \<Rightarrow> int option \<Rightarrow> nat \<Rightarrow> search_state
   \<Rightarrow> js_error option \<times> search_state" where
  "search_pages v p net topic websitesNumber page st =
     (if page \<le> 20 then
        (case encodeURIComponent p topic of
           None \<Rightarrow> (Some URI_malformed, st)
         | Some q \<Rightarrow>
             (let st1 = search_page v p net topic (search_url q page) st in
              if reached (length (searchResults st1)) websitesNumber then (None, st1)
              else search_pages v p net topic websitesNumber (Suc page) st1))
      else (None, st))"
  by pat_completeness auto
termination
  by (relation "measure (\<lambda>(v, p, net, topic, websitesNumber, page, st). 21 - page)") auto

declare search_pages.simps [simp del]

text \<open>
  The state of the second loop. \<open>attempted\<close> is not a variable of the program: it
  records the argument of each call of \<^verbatim>\<open>fetchWebPage\<close> in this loop, in order.
\<close>

record harvest_state =
  h_world :: world
  processedUrls :: "jsstring list"
  attempted :: "jsstring list"

text \<open>The body of the try block from the fetch to the push, the same in both variants:
  the exception it ends with, if any, and the state it leaves.\<close>

definition scrape_and_save ::
  "variant \<Rightarrow> platform \<Rightarrow> jsstring \<Rightarrow> js_value \<Rightarrow> jsstring \<Rightarrow> jsstring \<Rightarrow> harvest_state
   \<Rightarrow> js_error option \<times> harvest_state" where
  "scrape_and_save v p resultUrl htmlContent folderName outputFormat st =
     (case scrapeData v p htmlContent of
        (title, bodyContent) \<Rightarrow>
          (case saveData v p (h_world st) resultUrl title (processData bodyContent) folderName
                  outputFormat of
             (Some error, w1) \<Rightarrow> (Some error, st\<lparr>h_world := w1\<rparr>)
           | (None, w1) \<Rightarrow>
               (None, st\<lparr>h_world := w1, processedUrls := processedUrls st @ [resultUrl]\<rparr>)))"

text \<open>\<^verbatim>\<open>for (const resultUrl of searchResults)\<close> in app.js. The catch block only
  prints.\<close>

fun harvest_app ::
  "platform \<Rightarrow> network \<Rightarrow> jsstring \<Rightarrow> jsstring \<Rightarrow> int option \<Rightarrow> jsstring list \<Rightarrow> harvest_state
   \<Rightarrow> harvest_state" where
  "harvest_app p net folderName outputFormat websitesNumber [] st = st"
| "harvest_app p net folderName outputFormat websitesNumber (resultUrl # rest) st =
     (if resultUrl \<in> set (processedUrls st)
      then harvest_app p net folderName outputFormat websitesNumber rest st
      else
        (case fetchWebPage App_js p net (h_world st) resultUrl of
           (r, w1) \<Rightarrow>
             (case await r of
                Inl error \<Rightarrow>
                  harvest_app p net folderName outputFormat websitesNumber rest
                    (st\<lparr>h_world := w1, attempted := attempted st @ [resultUrl]\<rparr>)
              | Inr htmlContent \<Rightarrow>
                  (case scrape_and_save App_js p resultUrl htmlContent folderName outputFormat
                          (st\<lparr>h_world := w1, attempted := attempted st @ [resultUrl]\<rparr>) of
                     (Some error, st1) \<Rightarrow>
                       harvest_app p net folderName outputFormat websitesNumber rest st1
                   | (None, st1) \<Rightarrow>
                       (if reached (length (processedUrls st1)) websitesNumber then st1
                        else harvest_app p net folderName outputFormat websitesNumber rest st1)))))"

text \<open>
  The same loop in part_000: URLs that end in \<^verbatim>\<open>.pdf\<close> and fetches that give
  \<^verbatim>\<open>'skip'\<close> are passed over, and the loop ends at 20 files in the directory instead
  of at the number of websites asked for.
\<close>

fun harvest_part000 ::
  "platform \<Rightarrow> network \<Rightarrow> jsstring \<Rightarrow> jsstring \<Rightarrow> jsstring list \<Rightarrow> harvest_state \<Rightarrow> harvest_state" where
  "harvest_part000 p net folderName outputFormat [] st = st"
| "harvest_part000 p net folderName outputFormat (resultUrl # rest) st =
     (if resultUrl \<in> set (processedUrls st)
      then harvest_part000 p net folderName outputFormat rest st
      else if endsWith resultUrl (js ''.pdf'')
      then harvest_part000 p net folderName outputFormat rest st
      else
        (case fetchWebPage Part_000 p net (h_world st) resultUrl of
           (r, w1) \<Rightarrow>
             (case await r of
                Inl error \<Rightarrow>
                  harvest_part000 p net folderName outputFormat rest
                    (st\<lparr>h_world := w1, attempted := attempted st @ [resultUrl]\<rparr>)
              | Inr htmlContent \<Rightarrow>
                  (if htmlContent = Str (js ''skip'')
                   then
                     harvest_part000 p net folderName outputFormat rest
                       (st\<lparr>h_world := w1, attempted := attempted st @ [resultUrl]\<rparr>)
                   else
                     (case scrape_and_save Part_000 p resultUrl htmlContent folderName outputFormat
                             (st\<lparr>h_world := w1, attempted := attempted st @ [resultUrl]\<rparr>) of
                        (Some error, st1) \<Rightarrow>
                          harvest_part000 p net folderName outputFormat rest st1
                      | (None, st1) \<Rightarrow>
                          (case readdirSync (h_world st1) folderName of
                             None \<Rightarrow> harvest_part000 p net folderName outputFormat rest st1
                           | Some filesInFolder \<Rightarrow>
                               (if 20 \<le> length filesInFolder then st1
                                else harvest_part000 p net folderName outputFormat rest st1)))))))"

definition harvest ::
  "variant \<Rightarrow> platform \<Rightarrow> network \<Rightarrow> jsstring \<Rightarrow> jsstring \<Rightarrow> int option \<Rightarrow> jsstring list
   \<Rightarrow> harvest_state \<Rightarrow> harvest_state" where
  "harvest v p net folderName outputFormat websitesNumber results st =
     (case v of
        App_js \<Rightarrow> harvest_app p net folderName outputFormat websitesNumber results st
      | Part_000 \<Rightarrow> harvest_part000 p net folderName outputFormat results st)"

text \<open>The catch block of the handler.\<close>

definition bulk_catch :: "js_error \<Rightarrow> world \<Rightarrow> reply \<times> world" where
  "bulk_catch error w =
     (Send 500 (js ''An error occurred. Please check the logs for more details.''),
      logEvent (Error_in_bulk_route error) w)"

definition bulk_notice :: "variant \<Rightarrow> jsstring \<Rightarrow> jsstring" where
  "bulk_notice v folderName =
     (case v of
        App_js \<Rightarrow>
          js ''Data folder '' @ folderName @ js '' will be deleted after 3 minutes starting from now''
      | Part_000 \<Rightarrow>
          js ''Data folder '' @ [0x22] @ folderName @ [0x22]
          @ js '' will be deleted after 10 minutes starting from now'')"

text \<open>\<^verbatim>\<open>uuidv4().replace(/-/g, '').slice(0, 10) + '_' + topic.replace(/ /g, '_')\<close>.\<close>

definition bulk_folder :: "jsstring \<Rightarrow> jsstring \<Rightarrow> jsstring" where
  "bulk_folder uuid topic = job_id uuid @ js ''_'' @ map (\<lambda>c. if c = 0x20 then 0x5F else c) topic"

text \<open>
  The handler of \<^verbatim>\<open>POST /bulk\<close>: the directory is made first, then the two loops
  run, then the response is sent. Only part_000 sets a timer of its own for the
  directory, after the response.
\<close>

definition post_bulk ::
  "variant \<Rightarrow> platform \<Rightarrow> network \<Rightarrow> world \<Rightarrow> jsstring \<Rightarrow> jsstring \<Rightarrow> int option \<Rightarrow> jsstring
   \<Rightarrow> reply \<times> world" where
  "post_bulk v p net w topic outputFormat websitesNumber uuid =
     (let folderName = bulk_folder uuid topic in
      case mkdirSync w folderName of
        (Some error, w0) \<Rightarrow> bulk_catch error w0
      | (None, w0) \<Rightarrow>
          (case search_pages v p net topic websitesNumber 1
                  \<lparr>s_world = w0, searchResults = [], page_log = []\<rparr> of
             (Some error, st) \<Rightarrow> bulk_catch error (s_world st)
           | (None, st) \<Rightarrow>
               (let w1 = h_world
                      (harvest v p net folderName outputFormat websitesNumber (searchResults st)
                         \<lparr>h_world = s_world st, processedUrls = [], attempted = []\<rparr>);
                    response =
                      Json 200
                        [(js ''status'', js ''success''),
                         (js ''message'', js ''Data scraped successfully.''),
                         (js ''download_url'', js ''/download/'' @ folderName),
                         (js ''Notice'', bulk_notice v folderName)]
                in (response,
                    (case v of
                       App_js \<Rightarrow> w1
                     | Part_000 \<Rightarrow> w1\<lparr>timers := timers w1 @ [(3 * 60 * 1000, folderName)]\<rparr>)))))"

section \<open>The archive packager: GET /download/:folderName\<close>

text \<open>
  The handler up to its return. When the path is a directory it opens the archive file
  for writing, which creates it, and answers later, when the archive is closed
  (\<open>download_close\<close>); otherwise it answers 404 at once.
\<close>

definition get_download :: "world \<Rightarrow> jsstring \<Rightarrow> reply option \<times> world" where
  "get_download w folderPath =
     (let zipPath = folderPath @ js ''.zip'' in
      if existsSync w folderPath \<and> isDirectory w folderPath
      then (None, w\<lparr>files := (files w)(zipPath \<mapsto> [])\<rparr>)
      else (Some (Send 404 (js ''Data folder not found.'')), w))"

text \<open>
  The archive is written and closed: the directory is deleted, the archive is sent, and
  the archive file is unlinked.
\<close>

definition download_close :: "platform \<Rightarrow> world \<Rightarrow> jsstring \<Rightarrow> reply \<times> world" where
  "download_close p w folderPath =
     (let zipPath = folderPath @ js ''.zip'';
          archive = zip_archive p (case dirs w folderPath of None \<Rightarrow> [] | Some entries \<Rightarrow> entries);
          w1 = deleteFolder w folderPath
      in (Download 200 zipPath archive, w1\<lparr>files := (files w1)(zipPath := None)\<rparr>))"

section \<open>Example inputs\<close>

text \<open>
  Concrete platforms, networks and states on which the theorems below are evaluated.
  \<open>demo_url\<close> reads the protocol of an \<^verbatim>\<open>http\<close> or \<^verbatim>\<open>https\<close> URL and its host up
  to the first slash, and refuses every other string.
\<close>

definition demo_url :: "jsstring \<Rightarrow> url_parts option" where
  "demo_url u =
     (if startsWith u (js ''https://'')
      then Some \<lparr>protocol = js ''https:'', hostname = takeWhile (\<lambda>c. c \<noteq> 0x2F) (drop 8 u)\<rparr>
      else if startsWith u (js ''http://'')
      then Some \<lparr>protocol = js ''http:'', hostname = takeWhile (\<lambda>c. c \<noteq> 0x2F) (drop 7 u)\<rparr>
      else None)"

definition demo_links :: "jsstring list" where
  "demo_links =
     map js [''/url?q=https://a.example/&sa=U'', ''/url?q=https://b.example/&sa=U'',
             ''/url?q=https://c.example/&sa=U'']"

definition demo_platform :: platform where
  "demo_platform =
     \<lparr>title_text = (\<lambda>content. js ''title''),
      body_text_without = (\<lambda>tags content. case content of Str html \<Rightarrow> html | Member name \<Rightarrow> []),
      whatwg_url = demo_url,
      JSON_stringify = (\<lambda>properties. concat (map (\<lambda>kv. fst kv @ js '':'' @ snd kv @ js '';'') properties)),
      encodeURIComponent = Some,
      decodeURIComponent = Some,
      anchor_hrefs = (\<lambda>content. if content = Str (js ''results'') then demo_links else []),
      zip_archive = (\<lambda>entries. concat (map snd entries))\<rparr>"

definition empty_world :: world where
  "empty_world =
     \<lparr>cache = Map.empty, dirs = Map.empty, files = Map.empty, timers = [], log = [], requests = 0\<rparr>"

text \<open>
  A network on which every request is answered 403 by the edge proxy; the promise of
  \<^verbatim>\<open>request.get\<close> rejects every status outside 2xx.
\<close>

definition challenge_network :: network where
  "challenge_network =
     \<lparr>https_get = (\<lambda>n u. Response 403 (js ''Forbidden'') (Some (js ''cloudflare'')) []),
      http_get = (\<lambda>n u. Response 403 (js ''Forbidden'') (Some (js ''cloudflare'')) []),
      request_get = (\<lambda>n u. Inl (Request_failure (js ''403'')))\<rparr>"

text \<open>A network on which every request fails.\<close>

definition dead_network :: network where
  "dead_network =
     \<lparr>https_get = (\<lambda>n u. Error_event (js ''ECONNREFUSED'')),
      http_get = (\<lambda>n u. Error_event (js ''ECONNREFUSED'')),
      request_get = (\<lambda>n u. Inl (Request_failure (js ''ECONNREFUSED'')))\<rparr>"

text \<open>A network on which every request is answered 200 with the page \<^verbatim>\<open>results\<close>.\<close>

definition results_network :: network where
  "results_network =
     \<lparr>https_get = (\<lambda>n u. Response 200 (js ''OK'') None (js ''results'')),
      http_get = (\<lambda>n u. Response 200 (js ''OK'') None (js ''results'')),
      request_get = (\<lambda>n u. Inr (js ''results''))\<rparr>"

text \<open>An upload of 54 lines: 52 times the line \<^verbatim>\<open>u\<close>, a blank line, and the line
  \<^verbatim>\<open>v\<close>.\<close>

definition long_upload :: upload where
  "long_upload =
     \<lparr>originalname = js ''urls.txt'',
      buffer = concat (map (\<lambda>n. js ''u\<newline>'') [10..<62]) @ js ''\<newline>v''\<rparr>"

text \<open>The state in which \<^verbatim>\<open>POST /bulk\<close> starts its first loop on the empty state.\<close>

definition search_start :: search_state where
  "search_start = \<lparr>s_world = empty_world, searchResults = [], page_log = []\<rparr>"


section \<open>An invariant of the second loop\<close>




section \<open>The candidates of a result page\<close>

text \<open>
  What the first loop is measured against. The decoded URLs of the links of a page, up
  to the first link whose decoding throws (where \<^verbatim>\<open>links.forEach\<close> ends):
\<close>

fun decoded_links :: "platform \<Rightarrow> jsstring list \<Rightarrow> jsstring list" where
  "decoded_links p [] = []"
| "decoded_links p (href # rest) =
     (case decodeURIComponent p (wrapped_url href) of
        None \<Rightarrow> []
      | Some actualUrl \<Rightarrow> actualUrl # decoded_links p rest)"

text \<open>All candidates of a page: every decoded URL that passes the test of \<open>candidate\<close>,
  in the order of the links.\<close>

definition page_candidates :: "variant \<Rightarrow> platform \<Rightarrow> jsstring \<Rightarrow> jsstring list \<Rightarrow> jsstring list" where
  "page_candidates v p topic links = filter (candidate v p topic) (decoded_links p links)"

text \<open>All candidates of a sequence of logged pages, page after page.\<close>

definition candidates_of ::
  "variant \<Rightarrow> platform \<Rightarrow> jsstring \<Rightarrow> (jsstring \<times> jsstring list) list \<Rightarrow> jsstring list" where
  "candidates_of v p topic pages = concat (map (\<lambda>entry. page_candidates v p topic (snd entry)) pages)"

section \<open>Properties of the normalizer\<close>

text \<open>
  Each of the three replacements leaves a text of a certain shape (\<open>no_url\<close>,
  \<open>ws_ok\<close>, \<open>no_run\<close>) and is the identity on texts of that shape; the shapes are
  closed under taking a prefix or a suffix, hence under \<open>trim\<close>.
\<close>

lemma space_0x20: "is_space 0x20"
  by (simp add: is_space_def)

lemma url_at_head: "url_at (c # cs) \<Longrightarrow> \<not> is_space c"
  by (auto simp: url_at_def js_def is_space_def)

lemma url_at_Cons5:
  "url_at s \<longleftrightarrow> (\<exists>e r. s = 0x68 # 0x74 # 0x74 # 0x70 # e # r \<and> \<not> is_space e)"
proof
  assume "url_at s"
  then obtain d ds where t: "take 4 s = js ''http''" and d: "drop 4 s = d # ds" "\<not> is_space d"
    by (auto simp: url_at_def split: list.splits)
  have "s = take 4 s @ drop 4 s" by simp
  with t d have "s = 0x68 # 0x74 # 0x74 # 0x70 # d # ds"
    by (simp add: js_def)
  with d show "\<exists>e r. s = 0x68 # 0x74 # 0x74 # 0x70 # e # r \<and> \<not> is_space e" by blast
next
  assume "\<exists>e r. s = 0x68 # 0x74 # 0x74 # 0x70 # e # r \<and> \<not> is_space e"
  then show "url_at s" by (auto simp: url_at_def js_def)
qed

lemma not_space_http: "\<not> is_space 0x68" "\<not> is_space 0x74" "\<not> is_space 0x70"
  by (simp_all add: is_space_def)

subsection \<open>Removing URLs\<close>

lemma strip_urls_after_match:
  "s = [] \<or> is_space (hd s) \<Longrightarrow> strip_urls s = [] \<or> is_space (hd (strip_urls s))"
  by (cases s) (auto dest: url_at_head)

lemma dropWhile_not_space_head:
  "dropWhile (\<lambda>d. \<not> is_space d) s = [] \<or> is_space (hd (dropWhile (\<lambda>d. \<not> is_space d) s))"
  using hd_dropWhile [of "\<lambda>d. \<not> is_space d" s] by auto

lemma strip_urls_Cons_nonspace:
  assumes "strip_urls s = x # r" and "\<not> is_space x"
  shows "\<exists>s'. s = x # s' \<and> r = strip_urls s' \<and> \<not> url_at s"
proof (cases s)
  case Nil
  with assms show ?thesis by simp
next
  case (Cons c cs)
  show ?thesis
  proof (cases "url_at (c # cs)")
    case True
    let ?t = "dropWhile (\<lambda>d. \<not> is_space d) (drop 4 (c # cs))"
    from True Cons assms(1) have "strip_urls ?t = x # r" by simp
    moreover have "strip_urls ?t = [] \<or> is_space (hd (strip_urls ?t))"
      by (rule strip_urls_after_match) (rule dropWhile_not_space_head)
    ultimately show ?thesis using assms(2) by simp
  next
    case False
    with Cons assms(1) show ?thesis by simp
  qed
qed

lemma url_at_strip_urls:
  assumes "url_at (c # strip_urls cs)"
  shows "url_at (c # cs)"
proof -
  from assms obtain e r where
    c: "c = 0x68" and s0: "strip_urls cs = 0x74 # 0x74 # 0x70 # e # r" and e: "\<not> is_space e"
    unfolding url_at_Cons5 by auto
  from strip_urls_Cons_nonspace [OF s0 not_space_http(2)] obtain s1 where
    1: "cs = 0x74 # s1" "strip_urls s1 = 0x74 # 0x70 # e # r" by auto
  from strip_urls_Cons_nonspace [OF 1(2) not_space_http(2)] obtain s2 where
    2: "s1 = 0x74 # s2" "strip_urls s2 = 0x70 # e # r" by auto
  from strip_urls_Cons_nonspace [OF 2(2) not_space_http(3)] obtain s3 where
    3: "s2 = 0x70 # s3" "strip_urls s3 = e # r" by auto
  from strip_urls_Cons_nonspace [OF 3(2) e] obtain s4 where
    4: "s3 = e # s4" by auto
  show ?thesis
    unfolding url_at_Cons5 using c 1 2 3 4 e by simp
qed

lemma no_url_strip_urls: "no_url (strip_urls s)"
proof (induction s rule: strip_urls.induct)
  case 1
  show ?case by simp
next
  case (2 c cs)
  then show ?case
    by (auto dest: url_at_strip_urls)
qed

lemma strip_urls_id: "no_url s \<Longrightarrow> strip_urls s = s"
  by (induction s) auto

subsection \<open>Collapsing spaces\<close>

lemma collapse_ws_Cons_nonspace:
  assumes "collapse_ws s = x # r" and "\<not> is_space x"
  shows "\<exists>s'. s = x # s' \<and> r = collapse_ws s'"
  using assms by (cases s) (auto simp: space_0x20 split: if_splits)

lemma url_at_collapse_ws:
  assumes "url_at (c # collapse_ws cs)"
  shows "url_at (c # cs)"
proof -
  from assms obtain e r where
    c: "c = 0x68" and s0: "collapse_ws cs = 0x74 # 0x74 # 0x70 # e # r" and e: "\<not> is_space e"
    unfolding url_at_Cons5 by auto
  from collapse_ws_Cons_nonspace [OF s0 not_space_http(2)] obtain s1 where
    1: "cs = 0x74 # s1" "collapse_ws s1 = 0x74 # 0x70 # e # r" by auto
  from collapse_ws_Cons_nonspace [OF 1(2) not_space_http(2)] obtain s2 where
    2: "s1 = 0x74 # s2" "collapse_ws s2 = 0x70 # e # r" by auto
  from collapse_ws_Cons_nonspace [OF 2(2) not_space_http(3)] obtain s3 where
    3: "s2 = 0x70 # s3" "collapse_ws s3 = e # r" by auto
  from collapse_ws_Cons_nonspace [OF 3(2) e] obtain s4 where
    4: "s3 = e # s4" by auto
  show ?thesis
    unfolding url_at_Cons5 using c 1 2 3 4 e by simp
qed

lemma no_url_append_right: "no_url (xs @ ys) \<Longrightarrow> no_url ys"
  by (induction xs) auto

lemma url_at_append: "url_at xs \<Longrightarrow> url_at (xs @ ys)"
  unfolding url_at_Cons5 by auto

lemma no_url_append_left: "no_url (xs @ ys) \<Longrightarrow> no_url xs"
proof (induction xs)
  case Nil
  show ?case by simp
next
  case (Cons x xs)
  then show ?case using url_at_append [of "x # xs" ys] by auto
qed

lemma no_url_dropWhile: "no_url s \<Longrightarrow> no_url (dropWhile P s)"
  using no_url_append_right [of "takeWhile P s" "dropWhile P s"] by simp

lemma no_url_collapse_ws: "no_url s \<Longrightarrow> no_url (collapse_ws s)"
proof (induction s rule: collapse_ws.induct)
  case 1
  show ?case by simp
next
  case (2 c cs)
  show ?case
  proof (cases "is_space c")
    case True
    from "2.prems" have "no_url (dropWhile is_space cs)"
      by (simp add: no_url_dropWhile)
    with True "2.IH"(1) have "no_url (collapse_ws (dropWhile is_space cs))" by simp
    moreover have "\<not> url_at (0x20 # collapse_ws (dropWhile is_space cs))"
      using url_at_head space_0x20 by blast
    ultimately show ?thesis using True by simp
  next
    case False
    with "2.prems" "2.IH"(2) have "no_url (collapse_ws cs)" by simp
    moreover have "\<not> url_at (c # collapse_ws cs)"
      using "2.prems" url_at_collapse_ws by auto
    ultimately show ?thesis using False by simp
  qed
qed

lemma collapse_ws_head:
  "s = [] \<or> \<not> is_space (hd s) \<Longrightarrow> collapse_ws s = [] \<or> \<not> is_space (hd (collapse_ws s))"
  by (cases s) auto

lemma dropWhile_space_head:
  "dropWhile is_space s = [] \<or> \<not> is_space (hd (dropWhile is_space s))"
  using hd_dropWhile [of is_space s] by auto

lemma ws_ok_collapse_ws: "ws_ok (collapse_ws s)"
proof (induction s rule: collapse_ws.induct)
  case 1
  show ?case by simp
next
  case (2 c cs)
  show ?case
  proof (cases "is_space c")
    case True
    have "collapse_ws (dropWhile is_space cs) = []
          \<or> \<not> is_space (hd (collapse_ws (dropWhile is_space cs)))"
      by (rule collapse_ws_head) (rule dropWhile_space_head)
    with True "2.IH"(1) show ?thesis
      by (auto split: list.splits)
  next
    case False
    with "2.IH"(2) show ?thesis by simp
  qed
qed

lemma collapse_ws_id: "ws_ok s \<Longrightarrow> collapse_ws s = s"
proof (induction s rule: collapse_ws.induct)
  case 1
  show ?case by simp
next
  case (2 c cs)
  show ?case
  proof (cases "is_space c")
    case True
    with "2.prems" have c: "c = 0x20" and d: "dropWhile is_space cs = cs" and "ws_ok cs"
      by (auto split: list.splits)
    with True "2.IH"(1) show ?thesis by simp
  next
    case False
    with "2.prems" "2.IH"(2) show ?thesis by simp
  qed
qed

lemma ws_ok_append_right: "ws_ok (xs @ ys) \<Longrightarrow> ws_ok ys"
  by (induction xs) auto

lemma ws_ok_append_left: "ws_ok (xs @ ys) \<Longrightarrow> ws_ok xs"
proof (induction xs)
  case Nil
  show ?case by simp
next
  case (Cons x xs)
  then show ?case by (cases xs) (auto split: list.splits)
qed

subsection \<open>Deleting repeated punctuation\<close>

lemma length_strip_runs: "length (strip_runs s) \<le> length s"
proof (induction s rule: strip_runs.induct)
  case 1
  show ?case by simp
next
  case (2 c cs)
  show ?case
  proof (cases "run_at (c # cs)")
    case True
    with "2.IH"(1) have "length (strip_runs (c # cs)) \<le> length (dropWhile (\<lambda>d. d = c) cs)"
      by simp
    also have "\<dots> \<le> length cs" by (rule length_dropWhile_le)
    finally show ?thesis by simp
  next
    case False
    with "2.IH"(2) show ?thesis by simp
  qed
qed

lemma strip_runs_fixed_iff: "strip_runs s = s \<longleftrightarrow> no_run s"
proof (induction s)
  case Nil
  show ?case by simp
next
  case (Cons c cs)
  show ?case
  proof (cases "run_at (c # cs)")
    case True
    have "length (strip_runs (dropWhile (\<lambda>d. d = c) cs)) \<le> length (dropWhile (\<lambda>d. d = c) cs)"
      by (rule length_strip_runs)
    also have "\<dots> \<le> length cs" by (rule length_dropWhile_le)
    finally have "strip_runs (dropWhile (\<lambda>d. d = c) cs) \<noteq> c # cs" by auto
    with True show ?thesis by simp
  next
    case False
    with Cons show ?thesis by simp
  qed
qed

lemma no_run_append_right: "no_run (xs @ ys) \<Longrightarrow> no_run ys"
  by (induction xs) auto

lemma no_run_append_left: "no_run (xs @ ys) \<Longrightarrow> no_run xs"
proof (induction xs)
  case Nil
  show ?case by simp
next
  case (Cons x xs)
  then show ?case by (cases xs) (auto simp: run_at_def)
qed

subsection \<open>Trimming\<close>

lemma rev_dropWhile_decomp:
  "rev (dropWhile P (rev a)) @ rev (takeWhile P (rev a)) = a"
proof -
  have "rev (dropWhile P (rev a)) @ rev (takeWhile P (rev a))
        = rev (takeWhile P (rev a) @ dropWhile P (rev a))"
    by (simp only: rev_append)
  also have "\<dots> = rev (rev a)" by (simp only: takeWhile_dropWhile_id)
  finally show ?thesis by simp
qed

lemma trim_decomp: "\<exists>pre post. s = pre @ trim s @ post"
proof -
  define a where "a = dropWhile is_space s"
  have "s = takeWhile is_space s @ a" by (simp add: a_def)
  moreover have "a = trim s @ rev (takeWhile is_space (rev a))"
    unfolding trim_def a_def [symmetric] by (rule rev_dropWhile_decomp [symmetric])
  ultimately have "s = takeWhile is_space s @ trim s @ rev (takeWhile is_space (rev a))"
    by simp
  then show ?thesis by blast
qed

lemma trim_ends:
  "trim s = [] \<or> (\<not> is_space (hd (trim s)) \<and> \<not> is_space (last (trim s)))"
proof (cases "trim s = []")
  case True
  then show ?thesis by simp
next
  case False
  define a where "a = dropWhile is_space s"
  define b where "b = dropWhile is_space (rev a)"
  have t: "trim s = rev b" by (simp add: trim_def a_def b_def)
  with False have b: "b \<noteq> []" by simp
  then have "\<not> is_space (hd b)" unfolding b_def using hd_dropWhile by blast
  with b t have l: "\<not> is_space (last (trim s))" by (simp add: last_rev)
  from b have a: "a \<noteq> []" by (auto simp: b_def)
  then have ha: "\<not> is_space (hd a)" unfolding a_def using hd_dropWhile by blast
  have "a = trim s @ rev (takeWhile is_space (rev a))"
    unfolding t b_def by (rule rev_dropWhile_decomp [symmetric])
  with False have "hd a = hd (trim s)" by (metis hd_append2)
  with ha l show ?thesis by simp
qed

lemma trim_id: "s = [] \<or> (\<not> is_space (hd s) \<and> \<not> is_space (last s)) \<Longrightarrow> trim s = s"
proof (cases "s = []")
  case True
  then show ?thesis by (simp add: trim_def)
next
  case False
  assume "s = [] \<or> (\<not> is_space (hd s) \<and> \<not> is_space (last s))"
  with False have h: "\<not> is_space (hd s)" and l: "\<not> is_space (last s)" by auto
  from False h have 1: "dropWhile is_space s = s" by (cases s) auto
  from False l have "\<not> is_space (hd (rev s))" by (simp add: hd_rev)
  with False have 2: "dropWhile is_space (rev s) = rev s" by (cases "rev s") auto
  show ?thesis by (simp add: trim_def 1 2)
qed

lemma trim_idem: "trim (trim s) = trim s"
  by (rule trim_id) (rule trim_ends)

lemma no_url_trim: "no_url s \<Longrightarrow> no_url (trim s)"
  using trim_decomp [of s] no_url_append_left no_url_append_right by metis

lemma ws_ok_trim: "ws_ok s \<Longrightarrow> ws_ok (trim s)"
  using trim_decomp [of s] ws_ok_append_left ws_ok_append_right by metis

lemma no_run_trim: "no_run s \<Longrightarrow> no_run (trim s)"
  using trim_decomp [of s] no_run_append_left no_run_append_right by metis

subsection \<open>Idempotence\<close>

text \<open>
  Claim C2 says that \<open>processData\<close> is idempotent on every text. It is not: the
  repeated punctuation is deleted after the spaces have been collapsed, so deleting a run
  that stands between two spaces leaves two spaces side by side, which a second pass
  collapses. On \<^verbatim>\<open>a !! b\<close> the first pass gives \<^verbatim>\<open>a  b\<close> (two spaces) and the
  second \<^verbatim>\<open>a b\<close>.
\<close>

theorem processData_not_idempotent:
  "processData (js ''a !! b'') = js ''a  b''
   \<and> processData (processData (js ''a !! b'')) = js ''a b''
   \<and> processData (processData (js ''a !! b'')) \<noteq> processData (js ''a !! b'')"
  by (simp add: processData_def js_def url_at_def run_at_def is_space_def is_word_def
      is_punct_def trim_def)

text \<open>
  Claim C2, amended: \<open>processData\<close> is idempotent on every text in which the third
  replacement finds nothing to delete, that is, when the text has no two equal adjacent
  punctuation code units once its URLs are removed and its spaces collapsed.
\<close>

theorem processData_idempotent_without_runs:
  assumes "strip_runs (collapse_ws (strip_urls t)) = collapse_ws (strip_urls t)"
  shows "processData (processData t) = processData t"
proof -
  let ?v = "collapse_ws (strip_urls t)"
  let ?u = "trim ?v"
  from assms have pd: "processData t = ?u" by (simp add: processData_def)
  have "no_url ?v" by (simp add: no_url_strip_urls no_url_collapse_ws)
  then have 1: "strip_urls ?u = ?u" by (simp add: no_url_trim strip_urls_id)
  have "ws_ok ?v" by (rule ws_ok_collapse_ws)
  then have 2: "collapse_ws ?u = ?u" by (simp add: ws_ok_trim collapse_ws_id)
  from assms have "no_run ?v" by (simp add: strip_runs_fixed_iff)
  then have "no_run ?u" by (rule no_run_trim)
  then have 3: "strip_runs ?u = ?u" by (simp add: strip_runs_fixed_iff)
  have "processData ?u = ?u"
    by (simp add: processData_def 1 2 3 trim_idem)
  with pd show ?thesis by simp
qed

theorem processData_idempotent_without_runs_witness:
  "strip_runs (collapse_ws (strip_urls (js ''  see http://x.y/z  and more, or less.  '')))
     = collapse_ws (strip_urls (js ''  see http://x.y/z  and more, or less.  ''))
   \<and> processData (js ''  see http://x.y/z  and more, or less.  '') = js ''see and more, or less.''
   \<and> processData (processData (js ''  see http://x.y/z  and more, or less.  ''))
     = processData (js ''  see http://x.y/z  and more, or less.  '')"
proof -
  have h: "strip_runs (collapse_ws (strip_urls (js ''  see http://x.y/z  and more, or less.  '')))
             = collapse_ws (strip_urls (js ''  see http://x.y/z  and more, or less.  ''))"
    by (simp add: js_def url_at_def run_at_def is_space_def is_word_def is_punct_def)
  have v: "processData (js ''  see http://x.y/z  and more, or less.  '') = js ''see and more, or less.''"
    by (simp add: processData_def js_def url_at_def run_at_def is_space_def is_word_def
        is_punct_def trim_def)
  from h v processData_idempotent_without_runs [OF h] show ?thesis by blast
qed

section \<open>URLs, the cache and what a fetch leaves alone\<close>

text \<open>No inherited name has a colon, so none of them parses as a URL.\<close>

lemma inherited_no_colon: "url \<in> set Object_prototype_names \<Longrightarrow> 0x3A \<notin> set url"
  by (auto simp: Object_prototype_names_def js_def)

lemma new_URL_not_inherited: "new_URL p url = Some parts \<Longrightarrow> url \<notin> set Object_prototype_names"
  using inherited_no_colon [of url] by (auto simp: new_URL_def split: if_splits)

lemma url_hostname_not_inherited:
  "url_hostname p url = Some domain \<Longrightarrow> url \<notin> set Object_prototype_names"
  using new_URL_not_inherited [of p url] by (auto simp: url_hostname_def)

lemma exchange_Inr_not_inherited:
  "fst (exchange p net w url) = Inr answer \<Longrightarrow> url \<notin> set Object_prototype_names"
  using new_URL_not_inherited [of p url]
  by (auto simp: exchange_def get_throws_def split: option.splits if_splits)

lemma search_url_not_inherited: "search_url q page \<notin> set Object_prototype_names"
  using inherited_no_colon [of "search_url q page"] by (auto simp: search_url_def js_def)

lemma in_cache_own: "cache w url = Some cached \<Longrightarrow> in_cache w url \<and> cache_get w url = Str cached"
  by (simp add: in_cache_def cache_get_def)

lemma not_in_cache: "cache w url = None \<Longrightarrow> url \<notin> set Object_prototype_names \<Longrightarrow> \<not> in_cache w url"
  by (simp add: in_cache_def)

text \<open>
  The transport part of part_000 changes nothing but the number of requests, and the
  response callback nothing but the cache.
\<close>

lemma exchange_frame:
  "cache (snd (exchange p net w url)) = cache w"
  "dirs (snd (exchange p net w url)) = dirs w"
  "files (snd (exchange p net w url)) = files w"
  "timers (snd (exchange p net w url)) = timers w"
  "log (snd (exchange p net w url)) = log w"
  by (auto simp: exchange_def split: option.splits transport.splits)




section \<open>saveData, fetchWebPage, the packager and the cache\<close>

text \<open>
  What \<open>saveData\<close> does when the URL parses, the directory path is not taken by a
  regular file and the file name is one of a file inside the directory: it returns
  normally, the file holds the serialized content, the directory exists, a timer for
  it is pending and nothing is logged.
\<close>

lemma saveData_succeeds:
  assumes "url_hostname p url = Some domain"
    and "files w folderName = None"
    and "entry_name (domain @ js ''.'' @ outputFormat)"
  shows "\<exists>w'. saveData v p w url title processedText folderName outputFormat = (None, w')
           \<and> readFileSync w' folderName (domain @ js ''.'' @ outputFormat)
               = Some (if outputFormat = js ''json''
                       then JSON_stringify p [(js ''title'', title), (js ''content'', processedText)]
                       else processedText)
           \<and> (folderName, save_delay v) \<in> set (map (\<lambda>t. (snd t, fst t)) (timers w'))
           \<and> isDirectory w' folderName
           \<and> log w' = log w"
  using assms
  by (auto simp: saveData_def existsSync_def mkdirSync_def writeFileSync_def readFileSync_def
      isDirectory_def update_conv' split: option.splits)

text \<open>
  Claim C3: a call of \<open>saveData\<close> persists, under the name made of the host and the
  output format, the JSON serialization of the object with the properties \<open>title\<close> and
  \<open>content\<close> when the format is \<^verbatim>\<open>json\<close> (the structured format), and the normalized
  text itself for every other format.
\<close>

theorem saveData_writes_format:
  assumes "url_hostname p url = Some domain"
    and "files w folderName = None"
    and "entry_name (domain @ js ''.'' @ outputFormat)"
  shows "\<exists>w'. saveData v p w url title processedText folderName outputFormat = (None, w')
           \<and> readFileSync w' folderName (domain @ js ''.'' @ outputFormat)
               = Some (if outputFormat = js ''json''
                       then JSON_stringify p [(js ''title'', title), (js ''content'', processedText)]
                       else processedText)"
  using saveData_succeeds [OF assms] by blast

theorem saveData_writes_format_witness:
  "(\<exists>w'. saveData Part_000 demo_platform empty_world (js ''https://a.example/x'') (js ''T'')
            (js ''body text'') (js ''0123456789'') (js ''json'') = (None, w')
         \<and> readFileSync w' (js ''0123456789'') (js ''a.example.json'')
             = Some (js ''title:T;content:body text;''))
   \<and> (\<exists>w'. saveData Part_000 demo_platform empty_world (js ''https://a.example/x'') (js ''T'')
            (js ''body text'') (js ''0123456789'') (js ''txt'') = (None, w')
         \<and> readFileSync w' (js ''0123456789'') (js ''a.example.txt'') = Some (js ''body text''))"
proof -
  have h: "url_hostname demo_platform (js ''https://a.example/x'') = Some (js ''a.example'')"
    by (simp add: demo_platform_def demo_url_def url_hostname_def new_URL_def startsWith_def js_def)
  have f: "files empty_world (js ''0123456789'') = None"
    by (simp add: empty_world_def)
  have e1: "entry_name (js ''a.example'' @ js ''.'' @ js ''json'')"
    by (simp add: entry_name_def js_def)
  have e2: "entry_name (js ''a.example'' @ js ''.'' @ js ''txt'')"
    by (simp add: entry_name_def js_def)
  have j: "JSON_stringify demo_platform [(js ''title'', js ''T''), (js ''content'', js ''body text'')]
            = js ''title:T;content:body text;''"
    by (simp add: demo_platform_def js_def)
  have n: "js ''txt'' \<noteq> js ''json''" by (simp add: js_def)
  have a1: "js ''a.example'' @ js ''.'' @ js ''json'' = js ''a.example.json''" by (simp add: js_def)
  have a2: "js ''a.example'' @ js ''.'' @ js ''txt'' = js ''a.example.txt''" by (simp add: js_def)
  from saveData_writes_format [OF h f e1, of Part_000 "js ''T''" "js ''body text''"]
       saveData_writes_format [OF h f e2, of Part_000 "js ''T''" "js ''body text''"]
  show ?thesis unfolding j a1 a2 using n by auto
qed

text \<open>
  The original claim C4 fails for app.js: its \<open>fetchWebPage\<close> has no sentinel and looks
  at no status. On a network that answers every request 403 from the edge proxy, the
  promise of \<^verbatim>\<open>request.get\<close> rejects and so does the fetch.
\<close>

theorem fetchWebPage_app_rejects_challenge:
  "fst (fetchWebPage App_js demo_platform challenge_network empty_world (js ''https://a.example/x''))
     = Promise (Inl (Request_failure (js ''403'')))"
  by (simp add: fetchWebPage_def fetch_promise_def in_cache_def Object_prototype_names_def
      challenge_network_def empty_world_def js_def)

text \<open>
  Claim C4, amended: for a URL that is not in the cache, the fetch of part_000 looks at
  the response of its request. Status 200 resolves the promise with the body; status
  403 with the \<^verbatim>\<open>server\<close> header \<^verbatim>\<open>cloudflare\<close> resolves it with the sentinel
  \<^verbatim>\<open>skip\<close>; a 403 with any other (or no) server header, and every other status but
  200, rejects it with the error that carries the status code and the status message. The
  fetch of app.js makes no such distinction: its promise settles as the promise of
  \<^verbatim>\<open>request.get\<close> does.
\<close>

theorem fetchWebPage_status_by_variant:
  assumes "\<not> in_cache w url"
  shows "(fst (exchange p net w url) = Inr (Response statusCode statusMessage server body) \<longrightarrow>
            (statusCode = 200 \<longrightarrow> fst (fetchWebPage Part_000 p net w url) = Promise (Inr body))
          \<and> (statusCode = 403 \<and> server = Some (js ''cloudflare'')
               \<longrightarrow> fst (fetchWebPage Part_000 p net w url) = Promise (Inr (js ''skip'')))
          \<and> (statusCode \<noteq> 200 \<and> \<not> (statusCode = 403 \<and> server = Some (js ''cloudflare''))
               \<longrightarrow> fst (fetchWebPage Part_000 p net w url)
                   = Promise (Inl (Http_status statusCode statusMessage))))
       \<and> fst (fetchWebPage App_js p net w url) = Promise (request_get net (requests w) url)"
  using assms
  by (cases "exchange p net w url")
     (auto simp: fetchWebPage_def fetch_promise_def Let_def split: sum.splits)

theorem fetchWebPage_status_by_variant_witness:
  "fst (fetchWebPage Part_000 demo_platform challenge_network empty_world (js ''https://a.example/x''))
     = Promise (Inr (js ''skip''))
   \<and> fst (fetchWebPage Part_000 demo_platform
            (challenge_network\<lparr>https_get := \<lambda>n u. Response 403 (js ''Forbidden'') (Some (js ''nginx'')) []\<rparr>)
            empty_world (js ''https://a.example/x''))
     = Promise (Inl (Http_status 403 (js ''Forbidden'')))
   \<and> fst (fetchWebPage Part_000 demo_platform results_network empty_world (js ''https://a.example/x''))
     = Promise (Inr (js ''results''))
   \<and> fst (fetchWebPage App_js demo_platform results_network empty_world (js ''https://a.example/x''))
     = Promise (Inr (js ''results''))"
proof -
  have c: "\<not> in_cache empty_world (js ''https://a.example/x'')"
    by (simp add: in_cache_def empty_world_def Object_prototype_names_def js_def)
  have g: "get_throws demo_platform (js ''https://a.example/x'') = None"
    by (simp add: get_throws_def new_URL_def demo_platform_def demo_url_def startsWith_def js_def)
  have x1: "fst (exchange demo_platform challenge_network empty_world (js ''https://a.example/x''))
              = Inr (Response 403 (js ''Forbidden'') (Some (js ''cloudflare'')) [])"
    unfolding exchange_def g by (simp add: challenge_network_def startsWith_def js_def)
  have x2: "fst (exchange demo_platform
                 (challenge_network\<lparr>https_get := \<lambda>n u. Response 403 (js ''Forbidden'') (Some (js ''nginx'')) []\<rparr>)
                 empty_world (js ''https://a.example/x''))
              = Inr (Response 403 (js ''Forbidden'') (Some (js ''nginx'')) [])"
    unfolding exchange_def g by (simp add: challenge_network_def startsWith_def js_def)
  have x3: "fst (exchange demo_platform results_network empty_world (js ''https://a.example/x''))
              = Inr (Response 200 (js ''OK'') None (js ''results''))"
    unfolding exchange_def g by (simp add: results_network_def startsWith_def js_def)
  have r: "request_get results_network (requests empty_world) (js ''https://a.example/x'')
             = Inr (js ''results'')"
    by (simp add: results_network_def)
  have n: "js ''nginx'' \<noteq> js ''cloudflare''" by (simp add: js_def)
  from fetchWebPage_status_by_variant [OF c, of demo_platform challenge_network 403 "js ''Forbidden''"
         "Some (js ''cloudflare'')" "[]"]
       fetchWebPage_status_by_variant [OF c, of demo_platform
         "challenge_network\<lparr>https_get := \<lambda>n u. Response 403 (js ''Forbidden'') (Some (js ''nginx'')) []\<rparr>"
         403 "js ''Forbidden''" "Some (js ''nginx'')" "[]"]
       fetchWebPage_status_by_variant [OF c, of demo_platform results_network 200 "js ''OK''" None
         "js ''results''"]
       x1 x2 x3 r n
  show ?thesis by simp
qed

text \<open>
  Claim C9: when the path of a download request does not exist or is not a directory, the
  handler answers 404 and leaves the state as it is; in particular it creates no archive
  file.
\<close>

theorem get_download_not_found:
  assumes "\<not> (existsSync w folderPath \<and> isDirectory w folderPath)"
  shows "get_download w folderPath = (Some (Send 404 (js ''Data folder not found.'')), w)"
  using assms by (simp add: get_download_def)

theorem get_download_not_found_witness:
  "get_download (empty_world\<lparr>files := [js ''job'' \<mapsto> js ''a file'']\<rparr>) (js ''job'')
     = (Some (Send 404 (js ''Data folder not found.'')),
        empty_world\<lparr>files := [js ''job'' \<mapsto> js ''a file'']\<rparr>)"
proof -
  have h: "\<not> (existsSync (empty_world\<lparr>files := [js ''job'' \<mapsto> js ''a file'']\<rparr>) (js ''job'')
              \<and> isDirectory (empty_world\<lparr>files := [js ''job'' \<mapsto> js ''a file'']\<rparr>) (js ''job''))"
    by (simp add: isDirectory_def empty_world_def)
  show ?thesis by (rule get_download_not_found [OF h])
qed

text \<open>
  Claim C10: on a cache hit \<open>fetchWebPage\<close> returns the cached string, not a promise,
  and a call of \<open>processUrl\<close> for that URL throws and leaves the state as it is: nothing
  is fetched, scraped or saved.
\<close>

theorem processUrl_throws_on_cache_hit:
  assumes "cache w url = Some cached"
  shows "fetchWebPage v p net w url = (Returned (Str cached), w)
       \<and> processUrl v p net w url outputFormat folderName = (Some Not_a_function, w)"
  using in_cache_own [OF assms] by (simp add: fetchWebPage_def processUrl_def)

theorem processUrl_throws_on_cache_hit_witness:
  "fetchWebPage App_js demo_platform results_network
     (empty_world\<lparr>cache := [js ''http://a.example/'' \<mapsto> js ''page'']\<rparr>) (js ''http://a.example/'')
     = (Returned (Str (js ''page'')), empty_world\<lparr>cache := [js ''http://a.example/'' \<mapsto> js ''page'']\<rparr>)
   \<and> processUrl App_js demo_platform results_network
       (empty_world\<lparr>cache := [js ''http://a.example/'' \<mapsto> js ''page'']\<rparr>) (js ''http://a.example/'')
       (js ''txt'') (js ''job'')
     = (Some Not_a_function, empty_world\<lparr>cache := [js ''http://a.example/'' \<mapsto> js ''page'']\<rparr>)"
proof -
  have h: "cache (empty_world\<lparr>cache := [js ''http://a.example/'' \<mapsto> js ''page'']\<rparr>)
             (js ''http://a.example/'') = Some (js ''page'')"
    by simp
  show ?thesis by (rule processUrl_throws_on_cache_hit [OF h])
qed

section \<open>The challenge sentinel in explicit-list mode\<close>

text \<open>The second loop of part_000 passes over a URL whose fetch gives the sentinel: it
  goes on with the rest of the results and has saved nothing for that URL.\<close>

lemma harvest_part000_skips_sentinel:
  assumes "resultUrl \<notin> set (processedUrls st)"
    and "\<not> endsWith resultUrl (js ''.pdf'')"
    and "fetchWebPage Part_000 p net (h_world st) resultUrl = (r, w1)"
    and "await r = Inr (Str (js ''skip''))"
  shows "harvest_part000 p net folderName outputFormat (resultUrl # rest) st
       = harvest_part000 p net folderName outputFormat rest
           (st\<lparr>h_world := w1, attempted := attempted st @ [resultUrl]\<rparr>)"
  using assms by simp

text \<open>
  Claim C1 says that a URL whose fetch gives the sentinel is never written as an
  artifact, in either mode. The second loop of part_000 passes over such a URL
  (\<open>harvest_part000\<close>), but \<open>processUrl\<close> has no such test: when the request is
  answered 403 by \<^verbatim>\<open>cloudflare\<close>, it scrapes the string \<^verbatim>\<open>skip\<close> as if it were the
  page and saves the result under the host of the URL, and nothing is thrown or logged.
\<close>

theorem processUrl_saves_challenge_sentinel:
  assumes "cache w url = None"
    and "fst (exchange p net w url) = Inr (Response 403 statusMessage (Some (js ''cloudflare'')) body)"
    and "url_hostname p url = Some domain"
    and "files w folderName = None"
    and "entry_name (domain @ js ''.'' @ outputFormat)"
  shows "fst (processUrl Part_000 p net w url outputFormat folderName) = None
       \<and> readFileSync (snd (processUrl Part_000 p net w url outputFormat folderName)) folderName
            (domain @ js ''.'' @ outputFormat)
          = Some (if outputFormat = js ''json''
                  then JSON_stringify p
                         [(js ''title'', fst (scrapeData Part_000 p (Str (js ''skip'')))),
                          (js ''content'', processData (snd (scrapeData Part_000 p (Str (js ''skip'')))))]
                  else processData (snd (scrapeData Part_000 p (Str (js ''skip'')))))
       \<and> log (snd (processUrl Part_000 p net w url outputFormat folderName)) = log w"
proof -
  obtain answer w1 where x: "exchange p net w url = (answer, w1)" by (cases "exchange p net w url")
  with assms(2) have a: "answer = Inr (Response 403 statusMessage (Some (js ''cloudflare'')) body)"
    by simp
  from x exchange_frame(3) [of p net w url] assms(4) have f: "files w1 folderName = None" by simp
  from not_in_cache [OF assms(1) exchange_Inr_not_inherited [OF assms(2)]]
  have c: "\<not> in_cache w url" .
  obtain title bodyContent where s: "scrapeData Part_000 p (Str (js ''skip'')) = (title, bodyContent)"
    by (cases "scrapeData Part_000 p (Str (js ''skip''))")
  from saveData_succeeds [OF assms(3) f assms(5), of Part_000 title "processData bodyContent"]
  obtain w2 where
    sv: "saveData Part_000 p w1 url title (processData bodyContent) folderName outputFormat = (None, w2)"
    and rd: "readFileSync w2 folderName (domain @ js ''.'' @ outputFormat)
              = Some (if outputFormat = js ''json''
                      then JSON_stringify p [(js ''title'', title), (js ''content'', processData bodyContent)]
                      else processData bodyContent)"
    and lg: "log w2 = log w1"
    by blast
  from x exchange_frame(5) [of p net w url] have l1: "log w1 = log w" by simp
  have "processUrl Part_000 p net w url outputFormat folderName = (None, w2)"
    using c x a s sv
    by (simp add: processUrl_def fetchWebPage_def fetch_promise_def then_catch_def)
  with rd s lg l1 show ?thesis by simp
qed

theorem processUrl_saves_challenge_sentinel_witness:
  "fst (processUrl Part_000 demo_platform challenge_network empty_world (js ''https://a.example/x'')
         (js ''txt'') (js ''0123456789'')) = None
   \<and> readFileSync
        (snd (processUrl Part_000 demo_platform challenge_network empty_world
               (js ''https://a.example/x'') (js ''txt'') (js ''0123456789'')))
        (js ''0123456789'') (js ''a.example.txt'')
      = Some (js ''skip'')
   \<and> log (snd (processUrl Part_000 demo_platform challenge_network empty_world
               (js ''https://a.example/x'') (js ''txt'') (js ''0123456789''))) = []"
proof -
  have c: "cache empty_world (js ''https://a.example/x'') = None"
    by (simp add: empty_world_def)
  have g: "get_throws demo_platform (js ''https://a.example/x'') = None"
    by (simp add: get_throws_def new_URL_def demo_platform_def demo_url_def startsWith_def js_def)
  have x: "fst (exchange demo_platform challenge_network empty_world (js ''https://a.example/x''))
             = Inr (Response 403 (js ''Forbidden'') (Some (js ''cloudflare'')) [])"
    unfolding exchange_def g by (simp add: challenge_network_def startsWith_def js_def)
  have h: "url_hostname demo_platform (js ''https://a.example/x'') = Some (js ''a.example'')"
    by (simp add: demo_platform_def demo_url_def url_hostname_def new_URL_def startsWith_def js_def)
  have f: "files empty_world (js ''0123456789'') = None"
    by (simp add: empty_world_def)
  have e: "entry_name (js ''a.example'' @ js ''.'' @ js ''txt'')"
    by (simp add: entry_name_def js_def)
  have n: "js ''txt'' \<noteq> js ''json''" by (simp add: js_def)
  have a: "js ''a.example'' @ js ''.'' @ js ''txt'' = js ''a.example.txt''" by (simp add: js_def)
  have d: "processData (snd (scrapeData Part_000 demo_platform (Str (js ''skip'')))) = js ''skip''"
    by (simp add: scrapeData_def demo_platform_def processData_def js_def url_at_def run_at_def
        is_space_def is_word_def is_punct_def trim_def)
  have l: "log empty_world = []" by (simp add: empty_world_def)
  from processUrl_saves_challenge_sentinel [OF c x h f e] show ?thesis
    unfolding a d l using n by simp
qed

section \<open>The directory of a discovery job in app.js\<close>

text \<open>
  When every request fails and nothing is cached, no search page gives a link: the first
  loop of app.js leaves \<^verbatim>\<open>searchResults\<close> and the file system as they are.
\<close>

lemma fetchWebPage_app_dead:
  assumes "\<forall>n u. isl (request_get net n u)" and "cache w = Map.empty"
    and "url \<notin> set Object_prototype_names"
  shows "\<exists>error w1. fetchWebPage App_js p net w url = (Promise (Inl error), w1)
           \<and> cache w1 = Map.empty \<and> dirs w1 = dirs w \<and> files w1 = files w \<and> timers w1 = timers w"
proof -
  from assms(1) obtain error where "request_get net (requests w) url = Inl error"
    by (metis isl_def)
  with assms(2,3) show ?thesis
    by (simp add: fetchWebPage_def fetch_promise_def logEvent_def in_cache_def)
qed

lemma search_page_app_dead:
  assumes "\<forall>n u. isl (request_get net n u)" and "cache (s_world st) = Map.empty"
    and "searchUrl \<notin> set Object_prototype_names"
  shows "searchResults (search_page App_js p net topic searchUrl st) = searchResults st
       \<and> cache (s_world (search_page App_js p net topic searchUrl st)) = Map.empty
       \<and> dirs (s_world (search_page App_js p net topic searchUrl st)) = dirs (s_world st)
       \<and> files (s_world (search_page App_js p net topic searchUrl st)) = files (s_world st)
       \<and> timers (s_world (search_page App_js p net topic searchUrl st)) = timers (s_world st)"
proof -
  from fetchWebPage_app_dead [OF assms, of p] obtain error w1 where
    "fetchWebPage App_js p net (s_world st) searchUrl = (Promise (Inl error), w1)"
    "cache w1 = Map.empty" "dirs w1 = dirs (s_world st)" "files w1 = files (s_world st)"
    "timers w1 = timers (s_world st)"
    by blast
  then show ?thesis by (simp add: search_page_def logEvent_def)
qed

lemma search_pages_app_dead:
  assumes "\<forall>n u. isl (request_get net n u)"
    and "cache (s_world st) = Map.empty"
    and "search_pages App_js p net topic websitesNumber page st = (thrown, st')"
  shows "searchResults st' = searchResults st
       \<and> dirs (s_world st') = dirs (s_world st)
       \<and> files (s_world st') = files (s_world st)
       \<and> timers (s_world st') = timers (s_world st)"
  using assms
proof (induction App_js p net topic websitesNumber page st rule: search_pages.induct)
  case (1 p net topic websitesNumber page st)
  show ?case
  proof (cases "page \<le> 20")
    case False
    with "1.prems" show ?thesis by (simp add: search_pages.simps)
  next
    case True
    show ?thesis
    proof (cases "encodeURIComponent p topic")
      case None
      with True "1.prems" show ?thesis by (simp add: search_pages.simps)
    next
      case (Some q)
      let ?st1 = "search_page App_js p net topic (search_url q page) st"
      note sp = search_page_app_dead [OF "1.prems"(1,2) search_url_not_inherited, of p topic q page]
      show ?thesis
      proof (cases "reached (length (searchResults ?st1)) websitesNumber")
        case r: True
        with True Some "1.prems"(3) have "st' = ?st1"
          by (simp add: search_pages.simps [of _ _ _ _ _ page] Let_def)
        then show ?thesis using sp by blast
      next
        case r: False
        with True Some "1.prems"(3)
        have "search_pages App_js p net topic websitesNumber (Suc page) ?st1 = (thrown, st')"
          by (simp add: search_pages.simps [of _ _ _ _ _ page] Let_def)
        from "1.hyps" [OF True Some refl r "1.prems"(1) _ this] sp show ?thesis by simp
      qed
    qed
  qed
qed

text \<open>The handler of part_000 sets a timer for the directory whenever it answers 200.\<close>

lemma post_bulk_part000_sets_timer:
  assumes "post_bulk Part_000 p net w topic outputFormat websitesNumber uuid = (Json 200 body, w')"
  shows "(3 * 60 * 1000, bulk_folder uuid topic) \<in> set (timers w')"
  using assms
  by (auto simp: post_bulk_def Let_def bulk_catch_def split: prod.splits option.splits)

text \<open>
  Claim C8 says that every session directory that is created has a deletion scheduled.
  The handler of \<^verbatim>\<open>POST /bulk\<close> in app.js makes the directory first and sets no
  timer of its own; only \<open>saveData\<close> sets one. When every request fails, nothing is
  saved: the directory exists when the handler is done, no timer is pending, and the
  directory is still there when all timers have fired.
\<close>

theorem post_bulk_app_leaves_directory:
  assumes "\<forall>n u. isl (request_get net n u)"
    and "cache w = Map.empty"
    and "files w (bulk_folder uuid topic) = None"
    and "timers w = []"
  shows "isDirectory (snd (post_bulk App_js p net w topic outputFormat websitesNumber uuid))
           (bulk_folder uuid topic)
       \<and> timers (snd (post_bulk App_js p net w topic outputFormat websitesNumber uuid)) = []
       \<and> isDirectory
            (fire_timers (snd (post_bulk App_js p net w topic outputFormat websitesNumber uuid)))
            (bulk_folder uuid topic)"
proof -
  let ?f = "bulk_folder uuid topic"
  define w0 where "w0 = snd (mkdirSync w ?f)"
  have mk: "mkdirSync w ?f = (None, w0)" and c0: "cache w0 = Map.empty"
    and d0: "isDirectory w0 ?f" and t0: "timers w0 = []"
    unfolding w0_def using assms(2,3,4)
    by (cases "dirs w ?f"; simp add: mkdirSync_def isDirectory_def)+
  let ?st0 = "\<lparr>s_world = w0, searchResults = [], page_log = []\<rparr>"
  obtain thrown st where sp: "search_pages App_js p net topic websitesNumber 1 ?st0 = (thrown, st)"
    by (cases "search_pages App_js p net topic websitesNumber 1 ?st0")
  from search_pages_app_dead [OF assms(1) _ sp] c0 d0 t0
  have r: "searchResults st = []" and d: "isDirectory (s_world st) ?f" and t: "timers (s_world st) = []"
    by (simp_all add: isDirectory_def)
  have "isDirectory (snd (post_bulk App_js p net w topic outputFormat websitesNumber uuid)) ?f
        \<and> timers (snd (post_bulk App_js p net w topic outputFormat websitesNumber uuid)) = []"
    using mk sp r d t
    by (cases thrown)
       (simp_all add: post_bulk_def Let_def harvest_def bulk_catch_def logEvent_def isDirectory_def)
  then show ?thesis by (simp add: fire_timers_def isDirectory_def)
qed

theorem post_bulk_app_leaves_directory_witness:
  "isDirectory
     (snd (post_bulk App_js demo_platform dead_network empty_world (js ''rust'') (js ''txt'') (Some 5)
            (js ''01234567-89ab-cdef'')))
     (js ''0123456789_rust'')
   \<and> timers
        (snd (post_bulk App_js demo_platform dead_network empty_world (js ''rust'') (js ''txt'') (Some 5)
               (js ''01234567-89ab-cdef''))) = []
   \<and> isDirectory
        (fire_timers
          (snd (post_bulk App_js demo_platform dead_network empty_world (js ''rust'') (js ''txt'')
                 (Some 5) (js ''01234567-89ab-cdef''))))
        (js ''0123456789_rust'')"
proof -
  have 1: "\<forall>n u. isl (request_get dead_network n u)" by (simp add: dead_network_def)
  have 2: "cache empty_world = Map.empty" by (simp add: empty_world_def)
  have 3: "files empty_world (bulk_folder (js ''01234567-89ab-cdef'') (js ''rust'')) = None"
    by (simp add: empty_world_def)
  have 4: "timers empty_world = []" by (simp add: empty_world_def)
  have f: "bulk_folder (js ''01234567-89ab-cdef'') (js ''rust'') = js ''0123456789_rust''"
    by (simp add: bulk_folder_def job_id_def js_def)
  from post_bulk_app_leaves_directory [OF 1 2 3 4, of demo_platform "js ''txt''" "Some 5"]
  show ?thesis unfolding f .
qed

section \<open>The cap of explicit-list mode\<close>

text \<open>
  How the handler's loop and the later completion of a pipeline relate to \<open>processUrl\<close>:
  a call throws exactly when the URL is in the cache, and otherwise the pipeline it
  starts does, on completion, what the call run to completion does.
\<close>

lemma processUrl_throws_iff_cached:
  "fst (processUrl v p net w url outputFormat folderName) = Some Not_a_function
   \<longleftrightarrow> in_cache w url"
  by (auto simp: processUrl_def fetchWebPage_def split: prod.splits)

lemma complete_one:
  "\<not> in_cache w url
   \<Longrightarrow> complete v p net outputFormat folderName [url] w
       = snd (processUrl v p net w url outputFormat folderName)"
  by (simp add: processUrl_def fetchWebPage_def split: prod.splits)

text \<open>
  The loop over the lines, from any state of the handler's variables: a response once
  sent stays; the URLs scheduled are the next non-blank lines, in order, \<open>urlCount\<close>
  counts them and never passes 50; when no line is in the cache the loop schedules up to
  the cap; and when it ends at the cap with non-blank lines left over, the response sent is
  the 400 that says so.
\<close>

lemma forEach_line_sent_kept:
  "forEach_line w lines j = (thrown, j') \<Longrightarrow> sent j = Some r \<Longrightarrow> sent j' = Some r"
  by (induction lines arbitrary: j)
     (auto simp: respond_def split: if_splits option.splits)

lemma forEach_line_scheduled:
  assumes "forEach_line w lines j = (thrown, j')"
  shows "\<exists>m. m \<le> length (filter (\<lambda>l. trim l \<noteq> []) lines)
           \<and> scheduled j' = scheduled j @ take m (filter (\<lambda>l. trim l \<noteq> []) lines)
           \<and> urlCount j' = urlCount j + m
           \<and> (if 50 \<le> urlCount j then m = 0 else urlCount j' \<le> 50)"
  using assms
proof (induction lines arbitrary: j)
  case Nil
  then show ?case by auto
next
  case (Cons url rest)
  let ?nb = "filter (\<lambda>l. trim l \<noteq> []) rest"
  show ?case
  proof (cases "trim url = []")
    case True
    with Cons.prems have "forEach_line w rest j = (thrown, j')" by simp
    from Cons.IH [OF this] True show ?thesis by simp
  next
    case nonblank: False
    show ?thesis
    proof (cases "50 \<le> urlCount j")
      case full: True
      show ?thesis
      proof (cases "sent j")
        case None
        let ?next = "j\<lparr>sent := Some (Send 400 (js ''Only 50 URLs are allowed. Skipping remaining URLs.''))\<rparr>"
        from nonblank full None Cons.prems have "forEach_line w rest ?next = (thrown, j')"
          by (simp add: respond_def)
        from Cons.IH [OF this] full have "scheduled j' = scheduled j" "urlCount j' = urlCount j"
          by auto
        with full show ?thesis by (intro exI [of _ 0]) simp
      next
        case (Some r)
        with nonblank full Cons.prems have "j' = j" by (simp add: respond_def)
        with full show ?thesis by (intro exI [of _ 0]) simp
      qed
    next
      case room: False
      show ?thesis
      proof (cases "in_cache w url")
        case True
        with nonblank room Cons.prems have "j' = j" by simp
        with room show ?thesis by (intro exI [of _ 0]) simp
      next
        case False
        let ?next = "j\<lparr>urlCount := Suc (urlCount j), scheduled := scheduled j @ [url]\<rparr>"
        from nonblank room False Cons.prems have "forEach_line w rest ?next = (thrown, j')" by simp
        from Cons.IH [OF this] obtain m where
          m: "m \<le> length ?nb" "scheduled j' = scheduled ?next @ take m ?nb"
             "urlCount j' = urlCount ?next + m"
             "if 50 \<le> urlCount ?next then m = 0 else urlCount j' \<le> 50"
          by blast
        from m(3,4) room have "urlCount j' \<le> 50" by (auto split: if_splits)
        with m nonblank room show ?thesis by (intro exI [of _ "Suc m"]) simp
      qed
    qed
  qed
qed

lemma forEach_line_fills:
  assumes "forEach_line w lines j = (thrown, j')"
    and "list_all (\<lambda>l. \<not> in_cache w l) lines"
    and "urlCount j \<le> 50"
  shows "urlCount j' = min 50 (urlCount j + length (filter (\<lambda>l. trim l \<noteq> []) lines))"
  using assms
proof (induction lines arbitrary: j)
  case Nil
  then show ?case by auto
next
  case (Cons url rest)
  show ?case
  proof (cases "trim url = []")
    case True
    with Cons.prems have "forEach_line w rest j = (thrown, j')" by simp
    from Cons.IH [OF this] Cons.prems(2,3) True show ?thesis by simp
  next
    case nonblank: False
    show ?thesis
    proof (cases "50 \<le> urlCount j")
      case True
      with forEach_line_scheduled [OF Cons.prems(1)] have "urlCount j' = urlCount j" by auto
      with True Cons.prems(3) show ?thesis by simp
    next
      case room: False
      let ?next = "j\<lparr>urlCount := Suc (urlCount j), scheduled := scheduled j @ [url]\<rparr>"
      from Cons.prems(2) have "\<not> in_cache w url" by simp
      with nonblank room Cons.prems(1) have "forEach_line w rest ?next = (thrown, j')" by simp
      from Cons.IH [OF this] Cons.prems(2) room nonblank show ?thesis by simp
    qed
  qed
qed

lemma forEach_line_informs:
  assumes "forEach_line w lines j = (thrown, j')"
    and "sent j = None"
    and "urlCount j \<le> 50"
    and "urlCount j' = 50"
    and "50 < urlCount j + length (filter (\<lambda>l. trim l \<noteq> []) lines)"
  shows "sent j' = Some (Send 400 (js ''Only 50 URLs are allowed. Skipping remaining URLs.''))"
  using assms
proof (induction lines arbitrary: j)
  case Nil
  then show ?case by simp
next
  case (Cons url rest)
  show ?case
  proof (cases "trim url = []")
    case True
    with Cons.prems have "forEach_line w rest j = (thrown, j')" by simp
    from Cons.IH [OF this] Cons.prems True show ?thesis by simp
  next
    case nonblank: False
    show ?thesis
    proof (cases "50 \<le> urlCount j")
      case True
      let ?next = "j\<lparr>sent := Some (Send 400 (js ''Only 50 URLs are allowed. Skipping remaining URLs.''))\<rparr>"
      from nonblank True Cons.prems(1,2) have "forEach_line w rest ?next = (thrown, j')"
        by (simp add: respond_def)
      from forEach_line_sent_kept [OF this] show ?thesis by simp
    next
      case room: False
      show ?thesis
      proof (cases "in_cache w url")
        case True
        with nonblank room Cons.prems(1) have "j' = j" by simp
        with room Cons.prems(4) show ?thesis by simp
      next
        case False
        let ?next = "j\<lparr>urlCount := Suc (urlCount j), scheduled := scheduled j @ [url]\<rparr>"
        from nonblank room False Cons.prems(1) have "forEach_line w rest ?next = (thrown, j')" by simp
        from Cons.IH [OF this] Cons.prems(2,4,5) room nonblank show ?thesis by simp
      qed
    qed
  qed
qed

lemma respond_keeps:
  "scheduled (snd (respond r j)) = scheduled j"
  "urlCount (snd (respond r j)) = urlCount j"
  "sent j = Some x \<Longrightarrow> sent (snd (respond r j)) = Some x"
  by (simp_all add: respond_def split: option.splits)

lemma post_file_job:
  assumes "endsWith (originalname file) (js ''.txt'')"
    and "forEach_line w (split_nl (buffer file)) \<lparr>urlCount = 0, scheduled = [], sent = None\<rparr>
           = (thrown, j1)"
  shows "scheduled (fst (post_file v w (file # others) outputFormat uuid)) = scheduled j1"
    and "sent j1 = Some x \<Longrightarrow> sent (fst (post_file v w (file # others) outputFormat uuid)) = Some x"
  using assms
  by (auto simp: post_file_def Let_def error_middleware_def respond_def
      split: option.splits prod.splits)

text \<open>
  A line that names a property of \<^verbatim>\<open>Object.prototype\<close> is in the cache from the
  start: \<open>processUrl\<close> throws on it, the loop ends, nothing is started for it or for
  the lines after it, and the client receives the answer of the error middleware.
\<close>

lemma post_file_inherited_line:
  "scheduled (fst (post_file Part_000 empty_world
      [\<lparr>originalname = js ''urls.txt'', buffer = js ''constructor\<newline>https://a.example/''\<rparr>]
      (js ''txt'') (js ''01234567-89ab-cdef''))) = []
   \<and> sent (fst (post_file Part_000 empty_world
      [\<lparr>originalname = js ''urls.txt'', buffer = js ''constructor\<newline>https://a.example/''\<rparr>]
      (js ''txt'') (js ''01234567-89ab-cdef'')))
     = Some (Json 500 [(js ''error'', js ''Internal Server Error'')])"
  by (simp add: post_file_def endsWith_def error_middleware_def respond_def in_cache_def
      Object_prototype_names_def trim_def is_space_def js_def)

text \<open>
  Claim C5: for an uploaded \<^verbatim>\<open>.txt\<close> file, the handler of \<^verbatim>\<open>POST /file\<close> starts at
  most 50 pipelines whatever the size of the file; the URLs it starts are the first
  non-blank lines, in order (blank lines are passed over), and exactly the first 50 of
  them when no line is in the cache (\<^verbatim>\<open>url in cache\<close> is false for every line); and
  when 50 pipelines were started and more non-blank lines remain, the client receives the
  400 response \<^verbatim>\<open>Only 50 URLs are allowed. Skipping remaining URLs.\<close>
\<close>

theorem post_file_schedules_at_most_50:
  assumes "endsWith (originalname file) (js ''.txt'')"
  shows "length (scheduled (fst (post_file v w (file # others) outputFormat uuid))) \<le> 50
       \<and> scheduled (fst (post_file v w (file # others) outputFormat uuid))
           = take (length (scheduled (fst (post_file v w (file # others) outputFormat uuid))))
               (filter (\<lambda>l. trim l \<noteq> []) (split_nl (buffer file)))
       \<and> (list_all (\<lambda>l. \<not> in_cache w l) (split_nl (buffer file))
            \<longrightarrow> scheduled (fst (post_file v w (file # others) outputFormat uuid))
                = take 50 (filter (\<lambda>l. trim l \<noteq> []) (split_nl (buffer file))))
       \<and> (length (scheduled (fst (post_file v w (file # others) outputFormat uuid))) = 50
            \<and> 50 < length (filter (\<lambda>l. trim l \<noteq> []) (split_nl (buffer file)))
            \<longrightarrow> sent (fst (post_file v w (file # others) outputFormat uuid))
                = Some (Send 400 (js ''Only 50 URLs are allowed. Skipping remaining URLs.'')))"
proof -
  let ?init = "\<lparr>urlCount = 0, scheduled = [], sent = None\<rparr>"
  let ?lines = "split_nl (buffer file)"
  let ?nb = "filter (\<lambda>l. trim l \<noteq> []) ?lines"
  let ?job = "fst (post_file v w (file # others) outputFormat uuid)"
  obtain thrown j1 where fe: "forEach_line w ?lines ?init = (thrown, j1)"
    by (cases "forEach_line w ?lines ?init")
  note pf = post_file_job [OF assms fe, where v = v and others = others
      and outputFormat = outputFormat and uuid = uuid]
  from forEach_line_scheduled [OF fe] obtain m where
    m: "m \<le> length ?nb" "scheduled j1 = take m ?nb" "urlCount j1 = m" "urlCount j1 \<le> 50"
    by auto
  from m have len: "length (scheduled j1) = m" by simp
  have a: "length (scheduled ?job) \<le> 50" using pf(1) len m by simp
  have b: "scheduled ?job = take (length (scheduled ?job)) ?nb" using pf(1) len m by simp
  have c: "scheduled ?job = take 50 ?nb" if "list_all (\<lambda>l. \<not> in_cache w l) ?lines"
  proof -
    from forEach_line_fills [OF fe that] have "urlCount j1 = min 50 (length ?nb)" by simp
    with m pf(1) show ?thesis by (cases "50 \<le> length ?nb") (simp_all add: min_def)
  qed
  have d: "sent ?job = Some (Send 400 (js ''Only 50 URLs are allowed. Skipping remaining URLs.''))"
    if "length (scheduled ?job) = 50" "50 < length ?nb"
  proof -
    from that(1) pf(1) len m have "urlCount j1 = 50" by simp
    from forEach_line_informs [OF fe _ _ this] that(2)
    have "sent j1 = Some (Send 400 (js ''Only 50 URLs are allowed. Skipping remaining URLs.''))"
      by simp
    then show ?thesis by (rule pf(2))
  qed
  from a b c d show ?thesis by blast
qed

text \<open>The lines of the example upload.\<close>

lemma long_upload_lines:
  "split_nl (buffer long_upload) = map (\<lambda>n. js ''u'') [10..<62] @ [[], js ''v'']"
  by (simp add: long_upload_def js_def)

lemma long_upload_nonblank:
  "filter (\<lambda>l. trim l \<noteq> []) (split_nl (buffer long_upload))
     = map (\<lambda>n. js ''u'') [10..<62] @ [js ''v'']"
  unfolding long_upload_lines by (simp add: js_def trim_def is_space_def)

theorem post_file_schedules_at_most_50_witness:
  "scheduled (fst (post_file Part_000 empty_world [long_upload] (js ''txt'') (js ''01234567-89ab-cdef'')))
     = map (\<lambda>n. js ''u'') [10..<60]
   \<and> length (scheduled
        (fst (post_file Part_000 empty_world [long_upload] (js ''txt'') (js ''01234567-89ab-cdef''))))
     = 50
   \<and> sent (fst (post_file Part_000 empty_world [long_upload] (js ''txt'') (js ''01234567-89ab-cdef'')))
     = Some (Send 400 (js ''Only 50 URLs are allowed. Skipping remaining URLs.''))"
proof -
  let ?job = "fst (post_file Part_000 empty_world [long_upload] (js ''txt'') (js ''01234567-89ab-cdef''))"
  have e: "endsWith (originalname long_upload) (js ''.txt'')"
    by (simp add: long_upload_def endsWith_def js_def)
  have c: "list_all (\<lambda>l. \<not> in_cache empty_world l) (split_nl (buffer long_upload))"
    unfolding long_upload_lines
    by (simp add: in_cache_def empty_world_def Object_prototype_names_def list_all_iff js_def)
  have n: "take 50 (filter (\<lambda>l. trim l \<noteq> []) (split_nl (buffer long_upload)))
             = map (\<lambda>n. js ''u'') [10..<60]"
    unfolding long_upload_nonblank by simp
  have l: "50 < length (filter (\<lambda>l. trim l \<noteq> []) (split_nl (buffer long_upload)))"
    unfolding long_upload_nonblank by simp
  note t = post_file_schedules_at_most_50 [OF e, where v = Part_000 and w = empty_world
      and others = "[]" and outputFormat = "js ''txt''" and uuid = "js ''01234567-89ab-cdef''"]
  from t c n have s: "scheduled ?job = map (\<lambda>n. js ''u'') [10..<60]" by simp
  then have k: "length (scheduled ?job) = 50" by simp
  from t k l have "sent ?job = Some (Send 400 (js ''Only 50 URLs are allowed. Skipping remaining URLs.''))"
    by blast
  with s k show ?thesis by blast
qed

section \<open>The first loop of discovery mode\<close>

text \<open>
  \<^verbatim>\<open>links.forEach\<close> appends to \<^verbatim>\<open>searchResults\<close> all candidates among the links it
  is given, whatever the length of \<^verbatim>\<open>searchResults\<close>.
\<close>

lemma add_links_candidates:
  "snd (add_links v p topic links results) = results @ page_candidates v p topic links"
  by (induction links arbitrary: results)
     (auto simp: page_candidates_def split: option.splits)

text \<open>One page: all candidates of the page fetched are appended, and the page is logged.\<close>

lemma search_page_results:
  "searchResults (search_page v p net topic searchUrl st)
     = searchResults st
       @ page_candidates v p topic (page_links p (fst (fetchWebPage v p net (s_world st) searchUrl)))"
proof -
  obtain r w1 where f: "fetchWebPage v p net (s_world st) searchUrl = (r, w1)"
    by (cases "fetchWebPage v p net (s_world st) searchUrl")
  show ?thesis
  proof (cases "await r")
    case (Inl error)
    with f show ?thesis by (simp add: search_page_def page_links_def page_candidates_def)
  next
    case (Inr htmlContent)
    with f add_links_candidates [of v p topic "anchor_hrefs p htmlContent" "searchResults st"]
    show ?thesis by (auto simp: search_page_def page_links_def split: prod.splits)
  qed
qed

lemma search_page_log:
  "page_log (search_page v p net topic searchUrl st)
     = page_log st
       @ [(searchUrl, page_links p (fst (fetchWebPage v p net (s_world st) searchUrl)))]"
  by (simp add: search_page_def split: prod.splits)

lemma candidates_of_Cons:
  "candidates_of v p topic (entry # pages)
     = page_candidates v p topic (snd entry) @ candidates_of v p topic pages"
  by (simp add: candidates_of_def)

text \<open>
  The loop from any page on: it logs at most as many pages as are left; it appends all
  candidates of every page it logs; after each page but the last the number of results
  was below the number asked for; and when it ended before the last page without an
  exception, that number is reached.
\<close>

lemma search_pages_log:
  assumes "search_pages v p net topic websitesNumber page st = (thrown, st')"
  shows "\<exists>new. page_log st' = page_log st @ new
           \<and> length new \<le> 21 - page
           \<and> searchResults st' = searchResults st @ candidates_of v p topic new
           \<and> (\<forall>k. 0 < k \<and> k < length new \<longrightarrow>
                 \<not> reached (length (searchResults st @ candidates_of v p topic (take k new)))
                     websitesNumber)
           \<and> (if thrown = None \<and> length new < 21 - page
               then reached (length (searchResults st')) websitesNumber else True)"
  using assms
proof (induction v p net topic websitesNumber page st rule: search_pages.induct)
  case (1 v p net topic websitesNumber page st)
  show ?case
  proof (cases "page \<le> 20")
    case False
    with "1.prems" show ?thesis by (simp add: search_pages.simps candidates_of_def)
  next
    case True
    show ?thesis
    proof (cases "encodeURIComponent p topic")
      case None
      with True "1.prems" show ?thesis by (auto simp: search_pages.simps candidates_of_def)
    next
      case (Some q)
      let ?st1 = "search_page v p net topic (search_url q page) st"
      let ?e = "(search_url q page,
                 page_links p (fst (fetchWebPage v p net (s_world st) (search_url q page))))"
      have log1: "page_log ?st1 = page_log st @ [?e]" by (rule search_page_log)
      have res1: "searchResults ?st1 = searchResults st @ candidates_of v p topic [?e]"
        using search_page_results [of v p net topic "search_url q page" st]
        by (simp add: candidates_of_def)
      show ?thesis
      proof (cases "reached (length (searchResults ?st1)) websitesNumber")
        case r: True
        with True Some "1.prems" have "st' = ?st1" "thrown = None"
          by (simp_all add: search_pages.simps [of _ _ _ _ _ page] Let_def)
        moreover from True have "length [?e] \<le> 21 - page" by simp
        ultimately show ?thesis using log1 res1 r by (intro exI [of _ "[?e]"]) simp
      next
        case r: False
        with True Some "1.prems"
        have "search_pages v p net topic websitesNumber (Suc page) ?st1 = (thrown, st')"
          by (simp add: search_pages.simps [of _ _ _ _ _ page] Let_def)
        from "1.IH" [OF True Some refl r this] obtain new where
          new: "page_log st' = page_log ?st1 @ new"
               "length new \<le> 21 - Suc page"
               "searchResults st' = searchResults ?st1 @ candidates_of v p topic new"
               "\<forall>k. 0 < k \<and> k < length new \<longrightarrow>
                  \<not> reached (length (searchResults ?st1 @ candidates_of v p topic (take k new)))
                      websitesNumber"
               "if thrown = None \<and> length new < 21 - Suc page
                then reached (length (searchResults st')) websitesNumber else True"
          by blast
        have c: "searchResults ?st1 @ candidates_of v p topic pages
                   = searchResults st @ candidates_of v p topic (?e # pages)" for pages
          using res1 by (simp add: candidates_of_def)
        have 1: "page_log st' = page_log st @ (?e # new)" using new(1) log1 by simp
        have 2: "length (?e # new) \<le> 21 - page" using new(2) True by simp
        have 3: "searchResults st' = searchResults st @ candidates_of v p topic (?e # new)"
          using new(3) c by simp
        have 4: "\<not> reached (length (searchResults st @ candidates_of v p topic (take k (?e # new))))
                     websitesNumber"
          if k: "0 < k" "k < length (?e # new)" for k
        proof (cases k)
          case 0
          with k show ?thesis by simp
        next
          case (Suc m)
          show ?thesis
          proof (cases m)
            case 0
            with Suc r res1 show ?thesis by simp
          next
            case (Suc n)
            with \<open>k = Suc m\<close> k have "0 < m" "m < length new" by simp_all
            with new(4) have "\<not> reached (length (searchResults ?st1
                                  @ candidates_of v p topic (take m new))) websitesNumber"
              by blast
            with c [of "take m new"] \<open>k = Suc m\<close> show ?thesis by simp
          qed
        qed
        have 5: "if thrown = None \<and> length (?e # new) < 21 - page
                 then reached (length (searchResults st')) websitesNumber else True"
          using new(5) True by (auto split: if_splits)
        from 1 2 3 4 5 show ?thesis by (intro exI [of _ "?e # new"]) blast
      qed
    qed
  qed
qed

text \<open>The first loop on the example platform, where every page holds three links, for one
  website asked for and for four.\<close>

lemma demo_search_page:
  "search_pages Part_000 demo_platform results_network (js ''rust'') (Some 1) 1 search_start
     = (None,
        \<lparr>s_world = empty_world
           \<lparr>cache := [js ''https://www.google.com/search?q=rust&start=10'' \<mapsto> js ''results''],
            requests := 1\<rparr>,
         searchResults = map js [''https://a.example/'', ''https://b.example/'', ''https://c.example/''],
         page_log = [(js ''https://www.google.com/search?q=rust&start=10'', demo_links)]\<rparr>)"
  by (simp add: search_pages.simps search_page_def page_links_def search_url_def decimal.simps
      fetchWebPage_def fetch_promise_def exchange_def get_throws_def new_URL_def in_cache_def
      Object_prototype_names_def startsWith_def endsWith_def wrapped_url_def
      indexOf_def substring_def candidate_def isValidURL_def EXCLUDED_DOMAINS_def reached_def
      demo_platform_def demo_url_def demo_links_def results_network_def
      search_start_def empty_world_def js_def)

lemma demo_search_two_pages:
  "search_pages Part_000 demo_platform results_network (js ''rust'') (Some 4) 1 search_start
     = (None,
        \<lparr>s_world = empty_world
           \<lparr>cache := [js ''https://www.google.com/search?q=rust&start=10'' \<mapsto> js ''results'',
                      js ''https://www.google.com/search?q=rust&start=20'' \<mapsto> js ''results''],
            requests := 2\<rparr>,
         searchResults = map js [''https://a.example/'', ''https://b.example/'', ''https://c.example/'',
                                 ''https://a.example/'', ''https://b.example/'', ''https://c.example/''],
         page_log = [(js ''https://www.google.com/search?q=rust&start=10'', demo_links),
                     (js ''https://www.google.com/search?q=rust&start=20'', demo_links)]\<rparr>)"
  by (simp add: search_pages.simps search_page_def page_links_def search_url_def decimal.simps
      fetchWebPage_def fetch_promise_def exchange_def get_throws_def new_URL_def in_cache_def
      Object_prototype_names_def startsWith_def endsWith_def wrapped_url_def
      indexOf_def substring_def candidate_def isValidURL_def EXCLUDED_DOMAINS_def reached_def
      demo_platform_def demo_url_def demo_links_def results_network_def
      search_start_def empty_world_def js_def)

lemma demo_page_candidates:
  "page_candidates Part_000 demo_platform (js ''rust'') demo_links
     = map js [''https://a.example/'', ''https://b.example/'', ''https://c.example/'']"
  by (simp add: page_candidates_def wrapped_url_def startsWith_def endsWith_def
      indexOf_def substring_def candidate_def isValidURL_def EXCLUDED_DOMAINS_def new_URL_def
      demo_platform_def demo_url_def demo_links_def js_def)

text \<open>
  Claim C6 says that the accumulation of candidates stops as soon as their number reaches
  the number asked for, even in the middle of a page, so that no more candidates than
  that are returned. The loop compares the two numbers only after all links of a page
  have been pushed: with one website asked for and three links on the first page it
  ends after that page with three candidates.
\<close>

theorem search_pages_exceeds_desired_count:
  "searchResults
     (snd (search_pages Part_000 demo_platform results_network (js ''rust'') (Some 1) 1 search_start))
     = map js [''https://a.example/'', ''https://b.example/'', ''https://c.example/'']
   \<and> page_log
     (snd (search_pages Part_000 demo_platform results_network (js ''rust'') (Some 1) 1 search_start))
     = [(js ''https://www.google.com/search?q=rust&start=10'', demo_links)]
   \<and> \<not> length (searchResults
         (snd (search_pages Part_000 demo_platform results_network (js ''rust'') (Some 1) 1
                search_start))) \<le> 1"
  unfolding demo_search_page by simp

text \<open>
  Claim C6, amended: a discovery job calls \<open>fetchWebPage\<close> on at most 20 search URLs.
  Every page fetched contributes all its candidates: one page appends to the results all
  candidates among the links of the page it fetched, and the results of the loop are all
  candidates of all pages fetched, page after page. The number of candidates is compared
  with the number asked for at the end of each page only: after every page but the last
  one fetched it was still below that number, and when the loop ends before page 20
  (without an exception) the number of candidates has reached the number asked for, and
  may exceed it.
\<close>

theorem search_pages_keeps_whole_pages:
  assumes "search_pages v p net topic websitesNumber 1
             \<lparr>s_world = w, searchResults = [], page_log = []\<rparr> = (thrown, st)"
  shows "length (page_log st) \<le> 20
       \<and> searchResults (search_page v p net topic searchUrl before)
           = searchResults before
             @ page_candidates v p topic
                 (page_links p (fst (fetchWebPage v p net (s_world before) searchUrl)))
       \<and> searchResults st = candidates_of v p topic (page_log st)
       \<and> (\<forall>k. 0 < k \<and> k < length (page_log st) \<longrightarrow>
             \<not> reached (length (candidates_of v p topic (take k (page_log st)))) websitesNumber)
       \<and> (thrown = None \<and> length (page_log st) < 20
            \<longrightarrow> reached (length (searchResults st)) websitesNumber)"
proof -
  from search_pages_log [OF assms] obtain new where
    new: "page_log st = new" "length new \<le> 20"
    "searchResults st = candidates_of v p topic new"
    "\<forall>k. 0 < k \<and> k < length new \<longrightarrow>
       \<not> reached (length (candidates_of v p topic (take k new))) websitesNumber"
    "if thrown = None \<and> length new < 20
     then reached (length (searchResults st)) websitesNumber else True"
    by auto
  from new(5) have "thrown = None \<and> length new < 20
                      \<longrightarrow> reached (length (searchResults st)) websitesNumber"
    by (simp split: if_splits)
  with new(1,2,3,4) search_page_results [of v p net topic searchUrl before]
  show ?thesis by simp
qed

theorem search_pages_keeps_whole_pages_witness:
  "length (page_log
     (snd (search_pages Part_000 demo_platform results_network (js ''rust'') (Some 4) 1 search_start)))
     \<le> 20
   \<and> searchResults
       (snd (search_pages Part_000 demo_platform results_network (js ''rust'') (Some 4) 1 search_start))
     = candidates_of Part_000 demo_platform (js ''rust'')
         (page_log
           (snd (search_pages Part_000 demo_platform results_network (js ''rust'') (Some 4) 1
                  search_start)))
   \<and> candidates_of Part_000 demo_platform (js ''rust'')
       (page_log
         (snd (search_pages Part_000 demo_platform results_network (js ''rust'') (Some 4) 1
                search_start)))
     = map js [''https://a.example/'', ''https://b.example/'', ''https://c.example/'',
               ''https://a.example/'', ''https://b.example/'', ''https://c.example/'']
   \<and> \<not> reached
       (length (candidates_of Part_000 demo_platform (js ''rust'')
         (take 1 (page_log
           (snd (search_pages Part_000 demo_platform results_network (js ''rust'') (Some 4) 1
                  search_start))))))
       (Some 4)
   \<and> reached
       (length (searchResults
         (snd (search_pages Part_000 demo_platform results_network (js ''rust'') (Some 4) 1
                search_start))))
       (Some 4)"
proof -
  let ?st = "snd (search_pages Part_000 demo_platform results_network (js ''rust'') (Some 4) 1
                    search_start)"
  have run: "search_pages Part_000 demo_platform results_network (js ''rust'') (Some 4) 1
               \<lparr>s_world = empty_world, searchResults = [], page_log = []\<rparr> = (None, ?st)"
    using demo_search_two_pages by (simp add: search_start_def)
  have log: "0 < (1::nat) \<and> 1 < length (page_log ?st)" "length (page_log ?st) < 20"
    unfolding demo_search_two_pages by simp_all
  have res: "searchResults ?st
               = map js [''https://a.example/'', ''https://b.example/'', ''https://c.example/'',
                         ''https://a.example/'', ''https://b.example/'', ''https://c.example/'']"
    unfolding demo_search_two_pages by simp
  note t = search_pages_keeps_whole_pages [OF run]
  from t have 1: "length (page_log ?st) \<le> 20" by blast
  from t have 2: "searchResults ?st = candidates_of Part_000 demo_platform (js ''rust'') (page_log ?st)"
    by blast
  from t log(1) have 3: "\<not> reached (length (candidates_of Part_000 demo_platform (js ''rust'')
                              (take 1 (page_log ?st)))) (Some 4)"
    by blast
  from t log(2) have 4: "reached (length (searchResults ?st)) (Some 4)" by blast
  from 1 2 3 4 res show ?thesis by simp
qed

section \<open>The second loop of discovery mode\<close>




















end
